theory Spec2Isabelle
  imports Main "HOL-Library.Word" "HOL-Library.Multiset"
begin

section \<open>Strings\<close>

text \<open>
  A JavaScript string is a sequence of UTF-16 code units. String literals of the source
  are embedded with \<open>lit\<close>; every literal that the functions below compare or build is
  ASCII, the Korean titles are written out as code units.
\<close>

type_synonym code_unit = "16 word"
type_synonym jsstring = "code_unit list"

definition LF :: code_unit where
  "LF = 0x0A"

text \<open>
  The class \<open>\s\<close> of a regular expression and the characters \<open>trim()\<close> strips are the
  same set: WhiteSpace and LineTerminator of ECMAScript.
\<close>

definition is_ws :: "code_unit \<Rightarrow> bool" where
  "is_ws c \<longleftrightarrow>
     c \<in> set [0x09, 0x0A, 0x0B, 0x0C, 0x0D, 0x20, 0xA0, 0x1680, 0x2028, 0x2029,
               0x202F, 0x205F, 0x3000, 0xFEFF]
     \<or> (0x2000 \<le> c \<and> c \<le> 0x200A)"

definition lit :: "string \<Rightarrow> jsstring" where
  "lit s = map (\<lambda>c. of_nat (of_char c)) s"

text \<open>A non-negative integer inside a template literal: its decimal digits.\<close>

fun string_of_nat :: "nat \<Rightarrow> jsstring" where
  "string_of_nat n =
     (if n < 10 then [of_nat (48 + n)]
      else string_of_nat (n div 10) @ [of_nat (48 + n mod 10)])"

declare string_of_nat.simps [simp del]

text \<open>
  Truthiness of a possibly absent string, as \<open>||\<close> and \<open>filter(Boolean)\<close> test it:
  \<open>undefined\<close> and the empty string are falsy.
\<close>

fun truthy :: "jsstring option \<Rightarrow> bool" where
  "truthy None = False"
| "truthy (Some s) = (s \<noteq> [])"

section \<open>Data model (types.ts)\<close>

record Paragraph =
  p_id :: jsstring
  p_text :: jsstring
  sourceDraftIndex :: "nat option"
  sourceParaIndex :: "nat option"
  originalId :: "jsstring option"

text \<open>
  A draft object. The fields other than \<open>paragraphs\<close> are optional in the model because
  spreading an absent draft (\<open>{...undefined, paragraphs: ps}\<close>) leaves them undefined.
\<close>

record ManuscriptDraft =
  d_id :: "nat option"
  title :: "jsstring option"
  customTitle :: "jsstring option"
  paragraphs :: "Paragraph list"

section \<open>Paragraph Splitter (App.tsx, parseTextToParagraphs)\<close>

subsection \<open>The regular expression \<open>/\n\s*\n+/\<close>\<close>

text \<open>
  A backtracking matcher for the one expression the source uses. Each function takes the
  input at the current position and returns the input left after the match, or \<open>None\<close>.
  \<open>nl_plus\<close> is the greedy \<open>\n+\<close> at the end of the expression; \<open>ws_star\<close> is the greedy
  \<open>\s*\<close> followed by \<open>\n+\<close>: it first tries to take one more whitespace character and
  falls back to \<open>\n+\<close> at the current position when the rest cannot match.
\<close>

fun nl_plus :: "jsstring \<Rightarrow> jsstring option" where
  "nl_plus [] = None"
| "nl_plus (c # cs) = (if c = LF then Some (dropWhile (\<lambda>d. d = LF) cs) else None)"

fun ws_star :: "jsstring \<Rightarrow> jsstring option" where
  "ws_star [] = nl_plus []"
| "ws_star (c # cs) =
     (if is_ws c
      then (case ws_star cs of Some r \<Rightarrow> Some r | None \<Rightarrow> nl_plus (c # cs))
      else nl_plus (c # cs))"

fun match_at :: "jsstring \<Rightarrow> jsstring option" where
  "match_at [] = None"
| "match_at (c # cs) = (if c = LF then ws_star cs else None)"

lemma nl_plus_length: "nl_plus s = Some r \<Longrightarrow> length r < length s"
  by (cases s) (auto split: if_splits intro: le_imp_less_Suc length_dropWhile_le)

lemma ws_star_length: "ws_star s = Some r \<Longrightarrow> length r < length s"
proof (induction s arbitrary: r)
  case Nil
  then show ?case by simp
next
  case (Cons c cs)
  then show ?case
    by (auto split: if_splits option.splits dest!: nl_plus_length simp del: nl_plus.simps)
qed

lemma match_at_length: "match_at s = Some r \<Longrightarrow> length r < length s"
  by (cases s) (auto split: if_splits dest: ws_star_length)

subsection \<open>\<open>String.prototype.split\<close> with that expression\<close>

text \<open>
  The loop of \<open>RegExp.prototype[Symbol.split]\<close>: \<open>cur\<close> is the text between the end of the
  last match and the current position. A match at the current position closes the chunk
  and the scan resumes after the match; otherwise the position advances by one code unit.
  A match of this expression is never empty, so the loop's test for an empty match at the
  chunk start never fires; the empty input yields the one chunk \<open>""\<close>.
\<close>

function split_loop :: "jsstring \<Rightarrow> jsstring \<Rightarrow> jsstring list" where
  "split_loop cur [] = [cur]"
| "split_loop cur (c # cs) =
     (case match_at (c # cs) of
        Some r \<Rightarrow> cur # split_loop [] r
      | None \<Rightarrow> split_loop (cur @ [c]) cs)"
  by pat_completeness auto
termination
  by (relation "measure (\<lambda>(cur, s). length s)")
     (auto dest: match_at_length simp del: match_at.simps)

definition js_split :: "jsstring \<Rightarrow> jsstring list" where
  "js_split txt = split_loop [] txt"

definition trim :: "jsstring \<Rightarrow> jsstring" where
  "trim s = rev (dropWhile is_ws (rev (dropWhile is_ws s)))"

subsection \<open>parseTextToParagraphs\<close>

text \<open>
  \<open>Date.now()\<close> and \<open>Math.random()\<close> are not functions of the program state. The text
  \<open>`${Date.now()}-${Math.random()}`\<close> that the call for chunk \<open>pIdx\<close> produces is the
  parameter \<open>mint pIdx\<close>.
\<close>

definition draft_para_id :: "(nat \<Rightarrow> jsstring) \<Rightarrow> nat \<Rightarrow> nat \<Rightarrow> jsstring" where
  "draft_para_id mint draftIndex pIdx =
     lit ''draft-'' @ string_of_nat draftIndex @ lit ''-'' @ string_of_nat pIdx
       @ lit ''-'' @ mint pIdx"

definition mk_draft_para :: "(nat \<Rightarrow> jsstring) \<Rightarrow> nat \<Rightarrow> nat \<times> jsstring \<Rightarrow> Paragraph" where
  "mk_draft_para mint draftIndex = (\<lambda>(pIdx, paraText).
     \<lparr>p_id = draft_para_id mint draftIndex pIdx,
      p_text = paraText,
      sourceDraftIndex = Some draftIndex,
      sourceParaIndex = Some pIdx,
      originalId = Some (draft_para_id mint draftIndex pIdx)\<rparr>)"

definition parseTextToParagraphs ::
    "(nat \<Rightarrow> jsstring) \<Rightarrow> jsstring \<Rightarrow> nat \<Rightarrow> Paragraph list" where
  "parseTextToParagraphs mint txt draftIndex =
     map (mk_draft_para mint draftIndex)
       (enumerate 0 (filter (\<lambda>p. p \<noteq> []) (map trim (js_split txt))))"

subsection \<open>Inputs made of chunks separated by blank lines\<close>

text \<open>
  A separator is whitespace with at least two line feeds. A chunk is non-empty, starts and
  ends with a character that is not whitespace, and has no blank line inside: no line
  feed of it is followed, across whitespace only, by another line feed.
\<close>

definition blank_run :: "jsstring \<Rightarrow> bool" where
  "blank_run s \<longleftrightarrow> list_all is_ws s \<and> 2 \<le> length (filter (\<lambda>c. c = LF) s)"

fun blank_line_free :: "jsstring \<Rightarrow> bool" where
  "blank_line_free [] = True"
| "blank_line_free (c # cs) =
     ((c = LF \<longrightarrow> LF \<notin> set (takeWhile is_ws cs)) \<and> blank_line_free cs)"

definition chunk_ok :: "jsstring \<Rightarrow> bool" where
  "chunk_ok c \<longleftrightarrow> c \<noteq> [] \<and> \<not> is_ws (hd c) \<and> \<not> is_ws (last c) \<and> blank_line_free c"

definition assemble ::
    "jsstring \<Rightarrow> jsstring \<Rightarrow> (jsstring \<times> jsstring) list \<Rightarrow> jsstring \<Rightarrow> jsstring" where
  "assemble lead c0 rest trail = lead @ c0 @ concat (map (\<lambda>(s, c). s @ c) rest) @ trail"

text \<open>
  Two notions used to reason about the scan: the rest of the input after a run of
  whitespace is empty or starts with a character that is not whitespace, and the chunks
  that survive trimming and filtering when the scan starts with \<open>cur\<close> pending.
\<close>

definition tail_ok :: "jsstring \<Rightarrow> bool" where
  "tail_ok s \<longleftrightarrow> s = [] \<or> \<not> is_ws (hd s)"

definition kept :: "jsstring \<Rightarrow> jsstring \<Rightarrow> jsstring list" where
  "kept cur s = filter (\<lambda>p. p \<noteq> []) (map trim (split_loop cur s))"

section \<open>Application state and its operations (App.tsx)\<close>

text \<open>
  An array whose slots may be \<open>undefined\<close> is a list of options. Reading a slot beyond the
  length gives \<open>undefined\<close>; writing one extends the array, the slots between becoming
  holes. Indices of drafts come from \<open>drafts.map((draft, idx) => ...)\<close> and from the loop
  counter, so they are natural numbers.
\<close>

definition js_index :: "'a option list \<Rightarrow> nat \<Rightarrow> 'a option" where
  "js_index xs i = (if i < length xs then xs ! i else None)"

definition js_assign :: "'a option list \<Rightarrow> nat \<Rightarrow> 'a \<Rightarrow> 'a option list" where
  "js_assign xs i v =
     (if i < length xs then xs[i := Some v]
      else xs @ replicate (i - length xs) None @ [Some v])"

text \<open>
  The first position of \<open>Array.prototype.splice(start, ...)\<close> on an array of length \<open>len\<close>:
  a negative start counts from the end, and the result is clamped to \<open>0..len\<close>.
\<close>

definition splice_start :: "int \<Rightarrow> nat \<Rightarrow> nat" where
  "splice_start start len =
     (if start < 0 then nat (max (int len + start) 0) else min (nat start) len)"

text \<open>
  The state of the component between two events. Its Final Manuscript has no undefined
  entry; an array with an undefined slot occurs only as a result of \<open>moveParagraphInFinal\<close>
  and as the dependency of the memo.
\<close>

record state =
  drafts :: "ManuscriptDraft option list"
  finalParagraphs :: "Paragraph list"
  dismissedParagraphIds :: "jsstring set"

text \<open>\<open>{ ...next[idx], paragraphs: ps }\<close>: spreading \<open>undefined\<close> contributes no field.\<close>

definition with_paragraphs :: "ManuscriptDraft option \<Rightarrow> Paragraph list \<Rightarrow> ManuscriptDraft" where
  "with_paragraphs d ps =
     (case d of
        Some d' \<Rightarrow> d'\<lparr>paragraphs := ps\<rparr>
      | None \<Rightarrow> \<lparr>d_id = None, title = None, customTitle = None, paragraphs = ps\<rparr>)"

definition updateDraftContent :: "(nat \<Rightarrow> jsstring) \<Rightarrow> nat \<Rightarrow> jsstring \<Rightarrow> state \<Rightarrow> state" where
  "updateDraftContent mint idx txt s =
     s\<lparr>drafts := js_assign (drafts s) idx
          (with_paragraphs (js_index (drafts s) idx) (parseTextToParagraphs mint txt idx))\<rparr>"

subsection \<open>handleGlobalFileUpload\<close>





subsection \<open>Final Manuscript\<close>

text \<open>\<open>`final-${Date.now()}-${Math.random()}`\<close> with the token \<open>tok\<close> of that call.\<close>

definition final_id :: "jsstring \<Rightarrow> jsstring" where
  "final_id tok = lit ''final-'' @ tok"

definition final_copy :: "jsstring \<Rightarrow> Paragraph \<Rightarrow> Paragraph" where
  "final_copy tok paragraph =
     paragraph\<lparr>p_id := final_id tok,
       originalId := Some (if truthy (originalId paragraph) then the (originalId paragraph)
                           else p_id paragraph)\<rparr>"

definition addParagraphToFinal :: "jsstring \<Rightarrow> Paragraph \<Rightarrow> int option \<Rightarrow> state \<Rightarrow> state" where
  "addParagraphToFinal tok paragraph atIndex s =
     (let newPara = final_copy tok paragraph; prev = finalParagraphs s in
      s\<lparr>finalParagraphs :=
          (case atIndex of
             Some i \<Rightarrow>
               take (splice_start i (length prev)) prev @ [newPara]
                 @ drop (splice_start i (length prev)) prev
           | None \<Rightarrow> prev @ [newPara])\<rparr>)"

text \<open>
  The derivation of the reflected set from a Final Manuscript:
  \<open>new Set(finalParagraphs.map(p => p.originalId).filter(Boolean))\<close>.
\<close>

definition reflectedIds :: "Paragraph list \<Rightarrow> jsstring set" where
  "reflectedIds final = set (map the (filter truthy (map originalId final)))"

datatype js_error = TypeError

text \<open>
  The same callback on the array as React holds it, whose slots may be \<open>undefined\<close> (see
  \<open>moveParagraphInFinal\<close> below): reading \<open>p.originalId\<close> of an undefined entry throws.
\<close>

definition reflectedIds_of_array :: "Paragraph option list \<Rightarrow> js_error + jsstring set" where
  "reflectedIds_of_array arr =
     (case those arr of
        None \<Rightarrow> Inl TypeError
      | Some final \<Rightarrow> Inr (reflectedIds final))"

text \<open>
  \<open>useMemo(..., [finalParagraphs])\<close>: the cell keeps the dependency and the value of the
  last render. A render reuses the value when the dependency is the array of the last
  render and calls the callback otherwise. React compares the arrays by identity; every
  updater of the source returns a new array, and for equal arrays the callback gives the
  same set, so the model compares them by value.
\<close>

record memo =
  memo_deps :: "Paragraph option list"
  memo_value :: "jsstring set"

definition useMemo_reflectedIds :: "memo option \<Rightarrow> Paragraph option list \<Rightarrow> js_error + memo" where
  "useMemo_reflectedIds cell arr =
     (case cell of
        Some m \<Rightarrow>
          if memo_deps m = arr then Inr m
          else (case reflectedIds_of_array arr of
                  Inl e \<Rightarrow> Inl e
                | Inr ids \<Rightarrow> Inr \<lparr>memo_deps = arr, memo_value = ids\<rparr>)
      | None \<Rightarrow>
          (case reflectedIds_of_array arr of
             Inl e \<Rightarrow> Inl e
           | Inr ids \<Rightarrow> Inr \<lparr>memo_deps = arr, memo_value = ids\<rparr>))"

text \<open>
  The renders of the component one after another, each with the Final Manuscript array it
  sees; a render that throws ends the sequence. The first render starts with no cell.
\<close>

fun renders :: "memo option \<Rightarrow> Paragraph option list list \<Rightarrow> js_error + memo option" where
  "renders cell [] = Inr cell"
| "renders cell (arr # arrs) =
     (case useMemo_reflectedIds cell arr of
        Inl e \<Rightarrow> Inl e
      | Inr m \<Rightarrow> renders (Some m) arrs)"

text \<open>The cell holds the value of the callback at its dependency.\<close>

definition memo_ok :: "memo option \<Rightarrow> bool" where
  "memo_ok cell =
     (case cell of
        None \<Rightarrow> True
      | Some m \<Rightarrow> reflectedIds_of_array (memo_deps m) = Inr (memo_value m))"

text \<open>
  A render of the state \<open>s\<close> gives the callbacks it creates the values they close over:
  \<open>drafts\<close> and \<open>reflectedIds\<close> of that render. A callback keeps these values until the
  next render, whatever updates are queued in between.
\<close>

record view =
  v_drafts :: "ManuscriptDraft option list"
  v_reflectedIds :: "jsstring set"

definition render :: "memo option \<Rightarrow> state \<Rightarrow> js_error + memo \<times> view" where
  "render cell s =
     (case useMemo_reflectedIds cell (map Some (finalParagraphs s)) of
        Inl e \<Rightarrow> Inl e
      | Inr m \<Rightarrow> Inr (m, \<lparr>v_drafts = drafts s, v_reflectedIds = memo_value m\<rparr>))"

text \<open>
  \<open>addAllFromDraft\<close> is a callback of the render with the view \<open>v\<close>: it reads
  \<open>drafts[draftIdx].paragraphs\<close> (an absent draft raises a TypeError) and filters with
  \<open>reflectedIds\<close>, both from \<open>v\<close>; the updater it queues appends the new entries to the
  Final Manuscript \<open>prev\<close> of the state \<open>s\<close> it is applied to. \<open>fresh_entry\<close> is the callback
  that builds a new entry, \<open>mint j\<close> the token of the \<open>j\<close>-th one.
\<close>

definition fresh_entry :: "(nat \<Rightarrow> jsstring) \<Rightarrow> nat \<times> Paragraph \<Rightarrow> Paragraph" where
  "fresh_entry mint = (\<lambda>(j, p). p\<lparr>p_id := final_id (mint j), originalId := Some (p_id p)\<rparr>)"

definition addAllFromDraft ::
    "(nat \<Rightarrow> jsstring) \<Rightarrow> nat \<Rightarrow> view \<Rightarrow> state \<Rightarrow> js_error + state" where
  "addAllFromDraft mint draftIdx v s =
     (case js_index (v_drafts v) draftIdx of
        None \<Rightarrow> Inl TypeError
      | Some sourceDraft \<Rightarrow>
          (let toAdd = filter (\<lambda>p. p_id p \<notin> v_reflectedIds v) (paragraphs sourceDraft);
               newEntries = map (fresh_entry mint) (enumerate 0 toAdd)
           in Inr (s\<lparr>finalParagraphs := finalParagraphs s @ newEntries\<rparr>)))"

definition removeAllFromDraft :: "nat \<Rightarrow> state \<Rightarrow> state" where
  "removeAllFromDraft draftIdx s =
     s\<lparr>finalParagraphs := filter (\<lambda>p. sourceDraftIndex p \<noteq> Some draftIdx) (finalParagraphs s)\<rparr>"

text \<open>
  \<open>moveParagraphInFinal\<close> is the updater \<open>prev => ...\<close> on the array. \<open>splice(dragIndex, 1)\<close>
  removes nothing when the start is at the end, and then \<open>removed\<close> is \<open>undefined\<close>, which
  the second splice inserts all the same; so the array is modelled with slots.
\<close>

definition moveParagraphInFinal :: "int \<Rightarrow> int \<Rightarrow> 'a option list \<Rightarrow> 'a option list" where
  "moveParagraphInFinal dragIndex hoverIndex prev =
     (let a = splice_start dragIndex (length prev);
          removed = js_index prev a;
          updated = take a prev @ drop (Suc a) prev;
          b = splice_start hoverIndex (length updated)
      in take b updated @ [removed] @ drop b updated)"

subsection \<open>Image paragraphs (FinalColumn.tsx, handleImageFiles)\<close>

text \<open>
  The paragraph built for an image file: \<open>now\<close> is the text of \<open>Date.now()\<close>, \<open>fname\<close> the
  file name and \<open>base64\<close> the data URL. It goes to \<open>addParagraphToFinal\<close> through \<open>onAddNew\<close>.
\<close>

definition image_paragraph :: "jsstring \<Rightarrow> jsstring \<Rightarrow> jsstring \<Rightarrow> Paragraph" where
  "image_paragraph now fname base64 =
     \<lparr>p_id = lit ''img-'' @ now,
      p_text = lit ''!['' @ fname @ lit ''](''  @ base64 @ lit '')'',
      sourceDraftIndex = None,
      sourceParaIndex = None,
      originalId = None\<rparr>"

text \<open>
  The paragraphs that \<open>handlePolish\<close> (the App variant with the polish button) builds from
  the chunks of the polished text: \<open>`polished-${idx}-${Date.now()}`\<close> and the text only.
\<close>

definition polished_paragraph :: "jsstring \<Rightarrow> nat \<Rightarrow> jsstring \<Rightarrow> Paragraph" where
  "polished_paragraph now idx txt =
     \<lparr>p_id = lit ''polished-'' @ string_of_nat idx @ lit ''-'' @ now,
      p_text = txt,
      sourceDraftIndex = None,
      sourceParaIndex = None,
      originalId = None\<rparr>"

subsection \<open>State initialisers\<close>

text \<open>
  \<open>localStorage.getItem\<close> stands before the \<open>try\<close> of each initialiser: its outcome is
  the parameter \<open>stored\<close>, a thrown error (storage access denied), \<open>null\<close> for a missing
  entry, or the stored text.

  What \<open>JSON.parse(saved)\<close> can do: throw a SyntaxError, return \<open>null\<close> (reading a property
  of it throws a TypeError, inside the same \<open>try\<close>), or return a value whose three
  properties are read. A property is \<open>None\<close> when it is absent or falsy. The parser is the
  parameter \<open>JSON_parse\<close>.
\<close>

datatype storage_error = SecurityError

record persisted =
  saved_drafts :: "ManuscriptDraft option list option"
  saved_finalParagraphs :: "Paragraph list option"
  saved_dismissedParagraphIds :: "jsstring list option"

datatype parsed = SyntaxError | JsonNull | JsonValue persisted

definition default_drafts :: "ManuscriptDraft option list" where
  "default_drafts =
     [Some \<lparr>d_id = Some 1, title = Some [0xCD08, 0xC548, 32, 49], customTitle = Some [],
            paragraphs = []\<rparr>,
      Some \<lparr>d_id = Some 2, title = Some [0xCD08, 0xC548, 32, 50], customTitle = Some [],
            paragraphs = []\<rparr>,
      Some \<lparr>d_id = Some 3, title = Some [0xCD08, 0xC548, 32, 51], customTitle = Some [],
            paragraphs = []\<rparr>]"

text \<open>
  One initialiser: \<open>field\<close> reads the property and \<open>dflt\<close> is the value returned after the
  \<open>try\<close>. An error of \<open>getItem\<close> leaves the initialiser; every error after it is caught.
\<close>

definition initialise ::
    "(jsstring \<Rightarrow> parsed) \<Rightarrow> storage_error + jsstring option \<Rightarrow> (persisted \<Rightarrow> 'a option) \<Rightarrow> 'a
      \<Rightarrow> storage_error + 'a" where
  "initialise JSON_parse stored field dflt =
     (case stored of
        Inl e \<Rightarrow> Inl e
      | Inr saved \<Rightarrow>
          Inr (if truthy saved then
                 (case JSON_parse (the saved) of
                    SyntaxError \<Rightarrow> dflt
                  | JsonNull \<Rightarrow> dflt
                  | JsonValue v \<Rightarrow> (case field v of Some x \<Rightarrow> x | None \<Rightarrow> dflt))
               else dflt))"

text \<open>The three \<open>useState\<close> initialisers of the first render, in the order of the source.\<close>

definition initial_state ::
    "(jsstring \<Rightarrow> parsed) \<Rightarrow> storage_error + jsstring option \<Rightarrow> storage_error + state" where
  "initial_state JSON_parse stored =
     (case initialise JSON_parse stored saved_drafts default_drafts of
        Inl e \<Rightarrow> Inl e
      | Inr ds \<Rightarrow>
          (case initialise JSON_parse stored saved_finalParagraphs [] of
             Inl e \<Rightarrow> Inl e
           | Inr final \<Rightarrow>
               (case initialise JSON_parse stored
                       (\<lambda>v. map_option set (saved_dismissedParagraphIds v)) {} of
                  Inl e \<Rightarrow> Inl e
                | Inr dismissed \<Rightarrow>
                    Inr \<lparr>drafts = ds, finalParagraphs = final,
                         dismissedParagraphIds = dismissed\<rparr>)))"

definition default_state :: state where
  "default_state = \<lparr>drafts = default_drafts, finalParagraphs = [], dismissedParagraphIds = {}\<rparr>"

section \<open>AI Gateway (services/geminiService.ts)\<close>

text \<open>
  The client library is outside the repository. Its two entry points are parameters: the
  outcome of \<open>new GoogleGenAI({ apiKey: process.env.API_KEY })\<close>, and \<open>generateContent\<close>,
  which maps the model name and the prompt to the outcome of the awaited call together
  with reading \<open>response.text\<close>. \<open>Inl\<close> is a thrown error; for the \<open>async\<close> functions below
  \<open>Inl\<close> is a rejected promise and \<open>Inr\<close> a fulfilled one.
\<close>

datatype api_error = ApiError jsstring

record 'c gateway =
  construct :: "api_error + 'c"
  generateContent :: "'c \<Rightarrow> jsstring \<Rightarrow> jsstring \<Rightarrow> api_error + jsstring option"

definition polish_instruction :: jsstring where
  "polish_instruction =
     [0xB2E4, 0xC74C, 32, 0xC6D0, 0xACE0, 0xB97C, 32, 0xB354, 32, 0xB9E4, 0xB044,
      0xB7FD, 0xACE0, 32, 0xC804, 0xBB38, 0xC801, 0xC778, 32, 0xBB38, 0xCCB4, 0xB85C,
      32, 0xB2E4, 0xB4EC, 0xC5B4, 0xC918, 46, 32, 0xBB38, 0xB9E5, 0xC744, 32, 0xC720,
      0xC9C0, 0xD558, 0xBA74, 0xC11C, 32, 0xBB38, 0xC7A5, 32, 0xAD6C, 0xC870, 0xC640,
      32, 0xC5B4, 0xD718, 0xB97C, 32, 0xAC1C, 0xC120, 0xD574, 0xC918, 58, 10, 10]"

definition polishManuscript :: "'c gateway \<Rightarrow> jsstring \<Rightarrow> api_error + jsstring" where
  "polishManuscript env txt =
     (case construct env of
        Inl e \<Rightarrow> Inl e
      | Inr ai \<Rightarrow>
          (case generateContent env ai (lit ''gemini-3-flash-preview'') (polish_instruction @ txt) of
             Inl e \<Rightarrow> Inr txt
           | Inr response_text \<Rightarrow>
               Inr (if truthy response_text then the response_text else txt)))"

definition synthesis_instruction :: jsstring where
  "synthesis_instruction =
     [0xB2E4, 0xC74C, 32, 51, 0xAC00, 0xC9C0, 32, 0xCD08, 0xC548, 0xC744, 32, 0xD558,
      0xB098, 0xB85C, 32, 0xD1B5, 0xD569, 0xD558, 0xC5EC, 32, 0xAC00, 0xC7A5, 32,
      0xC644, 0xC131, 0xB3C4, 32, 0xB192, 0xC740, 32, 0xCD5C, 0xC885, 32, 0xC6D0,
      0xACE0, 0xB97C, 32, 0xC791, 0xC131, 0xD574, 0xC918, 46, 32, 0xAC01, 32, 0xCD08,
      0xC548, 0xC758, 32, 0xC7A5, 0xC810, 0xC744, 32, 0xC0B4, 0xB824, 0xC11C, 32,
      0xC790, 0xC5F0, 0xC2A4, 0xB7FD, 0xAC8C, 32, 0xC5F0, 0xACB0, 0xD574, 0xC918, 46,
      10, 10]"

definition draft_heading :: "nat \<Rightarrow> jsstring" where
  "draft_heading n = [0xCD08, 0xC548, 32] @ string_of_nat n @ lit '':'' @ [LF]"

definition no_result_message :: jsstring where
  "no_result_message =
     [65, 73, 32, 0xD1B5, 0xD569, 0xBCF8, 0xC744, 32, 0xC0DD, 0xC131, 0xD558, 0xC9C0,
      32, 0xBABB, 0xD588, 0xC2B5, 0xB2C8, 0xB2E4, 46]"

definition failure_message :: jsstring where
  "failure_message =
     [0xC624, 0xB958, 0xAC00, 32, 0xBC1C, 0xC0DD, 0xD588, 0xC2B5, 0xB2C8, 0xB2E4, 46]"

text \<open>\<open>${drafts[i]}\<close>: an absent element is rendered as the text \<open>undefined\<close>.\<close>

definition draft_text :: "jsstring list \<Rightarrow> nat \<Rightarrow> jsstring" where
  "draft_text ds i = (if i < length ds then ds ! i else lit ''undefined'')"

definition suggestSynthesis :: "'c gateway \<Rightarrow> jsstring list \<Rightarrow> api_error + jsstring" where
  "suggestSynthesis env ds =
     (case construct env of
        Inl e \<Rightarrow> Inl e
      | Inr ai \<Rightarrow>
          (case generateContent env ai (lit ''gemini-3-pro-preview'')
                  (synthesis_instruction @ draft_heading 1 @ draft_text ds 0
                     @ [LF, LF] @ draft_heading 2 @ draft_text ds 1
                     @ [LF, LF] @ draft_heading 3 @ draft_text ds 2) of
             Inl e \<Rightarrow> Inr failure_message
           | Inr response_text \<Rightarrow>
               Inr (if truthy response_text then the response_text else no_result_message)))"

section \<open>Properties of the Paragraph Splitter\<close>

lemma LF_ws: "is_ws LF"
  by (simp add: is_ws_def LF_def)

lemma ws_star_None_iff: "ws_star t = None \<longleftrightarrow> LF \<notin> set (takeWhile is_ws t)"
proof (induction t)
  case Nil
  show ?case by simp
next
  case (Cons x t)
  show ?case
  proof (cases "is_ws x")
    case True
    with Cons show ?thesis by (cases "ws_star t") auto
  next
    case False
    then have "x \<noteq> LF" using LF_ws by auto
    with False show ?thesis by simp
  qed
qed

lemma split_loop_no_LF: "LF \<notin> set w \<Longrightarrow> split_loop cur (w @ s) = split_loop (cur @ w) s"
  by (induction w arbitrary: cur) auto

lemma takeWhile_ws_chunk:
  assumes "c \<noteq> []" "\<not> is_ws (last c)"
  shows "takeWhile is_ws (c @ s) = takeWhile is_ws c"
proof -
  have "last c \<in> set c" using assms(1) by simp
  then show ?thesis using assms(2) by (intro takeWhile_append1) auto
qed

lemma split_loop_chunk:
  assumes "c \<noteq> []" "\<not> is_ws (last c)" "blank_line_free c"
  shows "split_loop cur (c @ s) = split_loop (cur @ c) s"
  using assms
proof (induction c arbitrary: cur)
  case Nil
  then show ?case by simp
next
  case (Cons x c)
  show ?case
  proof (cases "c = []")
    case True
    with Cons.prems have "x \<noteq> LF" using LF_ws by auto
    with True show ?thesis by simp
  next
    case False
    with Cons.prems have l: "\<not> is_ws (last c)" and b: "blank_line_free c" by auto
    have m: "match_at (x # c @ s) = None"
    proof (cases "x = LF")
      case True
      with Cons.prems have "LF \<notin> set (takeWhile is_ws c)" by simp
      then have "LF \<notin> set (takeWhile is_ws (c @ s))"
        using takeWhile_ws_chunk [OF False l] by simp
      then show ?thesis using True by (simp add: ws_star_None_iff)
    next
      case False
      then show ?thesis by simp
    qed
    show ?thesis using m Cons.IH [OF False l b, of "cur @ [x]"] by simp
  qed
qed

lemma takeWhile_ws_run:
  assumes "list_all is_ws t" "tail_ok s"
  shows "takeWhile is_ws (t @ s) = t"
proof -
  have "takeWhile is_ws s = []" using assms(2) by (cases s) (auto simp: tail_ok_def)
  then show ?thesis using assms(1) by (simp add: takeWhile_append2 list_all_iff)
qed

lemma dropWhile_LF_tail: "tail_ok s \<Longrightarrow> dropWhile (\<lambda>d. d = LF) s = s"
  using LF_ws by (cases s) (auto simp: tail_ok_def)

lemma ws_star_run:
  assumes "list_all is_ws t" "LF \<in> set t" "tail_ok s"
  shows "\<exists>post. ws_star (t @ s) = Some (post @ s) \<and> list_all is_ws post \<and> LF \<notin> set post"
  using assms
proof (induction t)
  case Nil
  then show ?case by simp
next
  case (Cons x t)
  then have wx: "is_ws x" and wt: "list_all is_ws t" by auto
  show ?case
  proof (cases "LF \<in> set t")
    case True
    from Cons.IH [OF wt True Cons.prems(3)] wx show ?thesis by auto
  next
    case False
    with Cons.prems have x: "x = LF" by auto
    have "ws_star (t @ s) = None"
      using False takeWhile_ws_run [OF wt Cons.prems(3)] by (simp add: ws_star_None_iff)
    moreover have "dropWhile (\<lambda>d. d = LF) (t @ s) = t @ s"
      using False dropWhile_LF_tail [OF Cons.prems(3)] by (cases t) auto
    ultimately have "ws_star ((x # t) @ s) = Some (t @ s)" using wx x by simp
    with wt False show ?thesis by blast
  qed
qed

lemma split_loop_blank_run:
  assumes "blank_run sep" "tail_ok s"
  shows "\<exists>pre post. list_all is_ws pre \<and> list_all is_ws post \<and>
           split_loop cur (sep @ s) = (cur @ pre) # split_loop post s"
proof -
  define pre where "pre = takeWhile (\<lambda>c. c \<noteq> LF) sep"
  define t where "t = tl (dropWhile (\<lambda>c. c \<noteq> LF) sep)"
  from assms(1) have ws: "list_all is_ws sep" and two: "2 \<le> length (filter (\<lambda>c. c = LF) sep)"
    by (auto simp: blank_run_def)
  have "filter (\<lambda>c. c = LF) sep \<noteq> []" using two by auto
  then have "\<exists>x \<in> set sep. x = LF" by (simp add: filter_empty_conv)
  then have dw: "dropWhile (\<lambda>c. c \<noteq> LF) sep \<noteq> []" by (auto simp: dropWhile_eq_Nil_conv)
  then have hd: "hd (dropWhile (\<lambda>c. c \<noteq> LF) sep) = LF"
    using hd_dropWhile [of "\<lambda>c. c \<noteq> LF" sep] by simp
  have sep: "sep = pre @ LF # t"
    using dw hd unfolding pre_def t_def
    by (metis takeWhile_dropWhile_id list.collapse)
  have preLF: "LF \<notin> set pre" unfolding pre_def by (auto dest: set_takeWhileD)
  then have "filter (\<lambda>c. c = LF) pre = []" by (auto simp: filter_empty_conv)
  with two sep have "1 \<le> length (filter (\<lambda>c. c = LF) t)" by simp
  then have "filter (\<lambda>c. c = LF) t \<noteq> []" by auto
  then have tLF: "LF \<in> set t" by (auto simp: filter_empty_conv)
  from ws sep have wpre: "list_all is_ws pre" and wt: "list_all is_ws t" by auto
  from ws_star_run [OF wt tLF assms(2)] obtain post where
    m: "ws_star (t @ s) = Some (post @ s)" and wpost: "list_all is_ws post" and pLF: "LF \<notin> set post"
    by blast
  have "split_loop cur (sep @ s) = split_loop (cur @ pre) (LF # t @ s)"
    using split_loop_no_LF [OF preLF, of cur "LF # t @ s"] sep by simp
  also have "\<dots> = (cur @ pre) # split_loop [] (post @ s)" using m by simp
  also have "\<dots> = (cur @ pre) # split_loop post s"
    using split_loop_no_LF [OF pLF, of "[]" s] by simp
  finally show ?thesis using wpre wpost by blast
qed

lemma nl_plus_set: "nl_plus s = Some r \<Longrightarrow> set r \<subseteq> set s"
  by (cases s) (auto split: if_splits dest: set_dropWhileD)

lemma ws_star_set: "ws_star s = Some r \<Longrightarrow> set r \<subseteq> set s"
proof (induction s arbitrary: r)
  case Nil
  then show ?case by simp
next
  case (Cons c cs)
  then show ?case
    by (fastforce split: if_splits option.splits dest!: nl_plus_set simp del: nl_plus.simps)
qed

lemma match_at_set: "match_at s = Some r \<Longrightarrow> set r \<subseteq> set s"
  by (cases s) (auto split: if_splits dest: ws_star_set)

lemma split_loop_all_ws:
  "list_all is_ws cur \<Longrightarrow> list_all is_ws s \<Longrightarrow> \<forall>ch \<in> set (split_loop cur s). list_all is_ws ch"
proof (induction cur s rule: split_loop.induct)
  case (1 cur)
  then show ?case by simp
next
  case (2 cur c cs)
  show ?case
  proof (cases "match_at (c # cs)")
    case None
    with 2 show ?thesis by simp
  next
    case (Some r)
    from match_at_set [OF Some] "2.prems"(2) have "list_all is_ws r"
      by (auto simp: list_all_iff)
    with 2 Some show ?thesis by simp
  qed
qed

lemma split_loop_ws_tail:
  "list_all is_ws w \<Longrightarrow>
   \<exists>pre chunks. split_loop a w = (a @ pre) # chunks \<and> list_all is_ws pre \<and>
                (\<forall>ch \<in> set chunks. list_all is_ws ch)"
proof (induction w arbitrary: a)
  case Nil
  show ?case by simp
next
  case (Cons x w)
  then have wx: "is_ws x" and ww: "list_all is_ws w" by auto
  show ?case
  proof (cases "match_at (x # w)")
    case None
    from Cons.IH [OF ww, of "a @ [x]"] obtain pre chunks where
      "split_loop (a @ [x]) w = ((a @ [x]) @ pre) # chunks" "list_all is_ws pre"
      "\<forall>ch \<in> set chunks. list_all is_ws ch" by blast
    with None wx have "split_loop a (x # w) = (a @ (x # pre)) # chunks \<and> list_all is_ws (x # pre)
        \<and> (\<forall>ch \<in> set chunks. list_all is_ws ch)" by simp
    then show ?thesis by blast
  next
    case (Some r)
    from match_at_set [OF Some] Cons.prems have "list_all is_ws r" by (auto simp: list_all_iff)
    then have "\<forall>ch \<in> set (split_loop [] r). list_all is_ws ch"
      using split_loop_all_ws [of "[]" r] by simp
    with Some have "split_loop a (x # w) = (a @ []) # split_loop [] r \<and> list_all is_ws []
        \<and> (\<forall>ch \<in> set (split_loop [] r). list_all is_ws ch)" by simp
    then show ?thesis by blast
  qed
qed

lemma split_loop_short_run:
  assumes "list_all is_ws w" "length (filter (\<lambda>c. c = LF) w) < 2" "tail_ok s"
  shows "split_loop cur (w @ s) = split_loop (cur @ w) s"
  using assms
proof (induction w arbitrary: cur)
  case Nil
  show ?case by simp
next
  case (Cons x w)
  then have ww: "list_all is_ws w" by simp
  show ?case
  proof (cases "x = LF")
    case True
    with Cons.prems(2) have "filter (\<lambda>c. c = LF) w = []" by simp
    then have nLF: "LF \<notin> set w" by (auto simp: filter_empty_conv)
    then have "ws_star (w @ s) = None"
      using takeWhile_ws_run [OF ww Cons.prems(3)] by (simp add: ws_star_None_iff)
    then have "split_loop cur ((x # w) @ s) = split_loop (cur @ [x]) (w @ s)"
      using True by simp
    also have "\<dots> = split_loop ((cur @ [x]) @ w) s" by (rule split_loop_no_LF [OF nLF])
    finally show ?thesis by simp
  next
    case False
    with Cons.prems(2) have "length (filter (\<lambda>c. c = LF) w) < 2" by simp
    from Cons.IH [OF ww this Cons.prems(3), of "cur @ [x]"] False show ?thesis by simp
  qed
qed

lemma dropWhile_hd: "xs \<noteq> [] \<Longrightarrow> \<not> P (hd xs) \<Longrightarrow> dropWhile P xs = xs"
  by (cases xs) auto

lemma trim_ws: "list_all is_ws w \<Longrightarrow> trim w = []"
proof -
  assume "list_all is_ws w"
  then have "dropWhile is_ws w = []" unfolding dropWhile_eq_Nil_conv list_all_iff .
  then have "trim w = rev (dropWhile is_ws (rev []))" by (simp only: trim_def)
  then show ?thesis by simp
qed

lemma trim_padded:
  assumes "list_all is_ws a" "list_all is_ws b" "c \<noteq> []" "\<not> is_ws (hd c)" "\<not> is_ws (last c)"
  shows "trim (a @ c @ b) = c"
proof -
  have 1: "dropWhile is_ws (a @ c @ b) = c @ b"
    using assms(1,3,4) by (cases c) (auto simp: list_all_iff)
  have "hd (rev c) = last c" using assms(3) by (simp add: hd_rev)
  moreover have "rev c \<noteq> []" using assms(3) by simp
  ultimately have 2: "dropWhile is_ws (rev c) = rev c"
    using assms(5) dropWhile_hd [of "rev c" is_ws] by simp
  have "dropWhile is_ws (rev b @ rev c) = dropWhile is_ws (rev c)"
    using assms(2) by (intro dropWhile_append2) (auto simp: list_all_iff)
  with 1 2 show ?thesis by (simp add: trim_def)
qed

lemma kept_last_chunk:
  assumes "list_all is_ws cur" "chunk_ok c" "list_all is_ws trail"
  shows "kept cur (c @ trail) = [c]"
proof -
  from assms(2) have c: "c \<noteq> []" "\<not> is_ws (hd c)" "\<not> is_ws (last c)" "blank_line_free c"
    by (auto simp: chunk_ok_def)
  from split_loop_ws_tail [OF assms(3), of "cur @ c"] obtain pre chunks where
    s: "split_loop (cur @ c) trail = ((cur @ c) @ pre) # chunks" and p: "list_all is_ws pre"
    and ch: "\<forall>ch \<in> set chunks. list_all is_ws ch" by blast
  have "filter (\<lambda>p. p \<noteq> []) (map trim chunks) = []"
    using ch by (auto simp: filter_empty_conv trim_ws)
  moreover have "trim (cur @ c @ pre) = c" by (rule trim_padded [OF assms(1) p c(1,2,3)])
  ultimately show ?thesis
    using split_loop_chunk [OF c(1,3,4), of cur trail] s c(1) by (simp add: kept_def)
qed

lemma kept_chunks:
  assumes "list_all is_ws cur" "chunk_ok c" "\<forall>(s, c') \<in> set rest. blank_run s \<and> chunk_ok c'"
    "list_all is_ws trail"
  shows "kept cur (c @ concat (map (\<lambda>(s, c). s @ c) rest) @ trail) = c # map snd rest"
  using assms
proof (induction rest arbitrary: cur c)
  case Nil
  then show ?case using kept_last_chunk by simp
next
  case (Cons sc rest)
  obtain s c' where sc: "sc = (s, c')" by (cases sc)
  from Cons.prems(3) sc have s: "blank_run s" and c': "chunk_ok c'"
    and rest: "\<forall>(s, c') \<in> set rest. blank_run s \<and> chunk_ok c'" by auto
  from Cons.prems(2) have c: "c \<noteq> []" "\<not> is_ws (hd c)" "\<not> is_ws (last c)" "blank_line_free c"
    by (auto simp: chunk_ok_def)
  define Y where "Y = c' @ concat (map (\<lambda>(s, c). s @ c) rest) @ trail"
  have "tail_ok Y" using c' by (cases c') (auto simp: tail_ok_def chunk_ok_def Y_def)
  from split_loop_blank_run [OF s this, of "cur @ c"] obtain pre post where
    pre: "list_all is_ws pre" and post: "list_all is_ws post"
    and sp: "split_loop (cur @ c) (s @ Y) = ((cur @ c) @ pre) # split_loop post Y" by blast
  have "split_loop cur (c @ s @ Y) = (cur @ c @ pre) # split_loop post Y"
    using split_loop_chunk [OF c(1,3,4), of cur "s @ Y"] sp by simp
  moreover have "trim (cur @ c @ pre) = c" by (rule trim_padded [OF Cons.prems(1) pre c(1,2,3)])
  ultimately have "kept cur (c @ s @ Y) = c # kept post Y" using c(1) by (simp add: kept_def)
  moreover have "kept post Y = c' # map snd rest"
    unfolding Y_def by (rule Cons.IH [OF post c' rest Cons.prems(4)])
  ultimately show ?case by (simp add: sc Y_def)
qed

lemma kept_lead:
  assumes "list_all is_ws lead" "tail_ok Y"
  shows "\<exists>cur. list_all is_ws cur \<and> kept [] (lead @ Y) = kept cur Y"
proof (cases "blank_run lead")
  case True
  from split_loop_blank_run [OF True assms(2), of "[]"] obtain pre post where
    pre: "list_all is_ws pre" and post: "list_all is_ws post"
    and sp: "split_loop [] (lead @ Y) = ([] @ pre) # split_loop post Y" by blast
  have "kept [] (lead @ Y) = kept post Y" using sp trim_ws [OF pre] by (simp add: kept_def)
  with post show ?thesis by blast
next
  case False
  with assms(1) have "length (filter (\<lambda>c. c = LF) lead) < 2" by (auto simp: blank_run_def)
  from split_loop_short_run [OF assms(1) this assms(2), of "[]"] assms(1) show ?thesis
    by (auto simp: kept_def)
qed

lemma kept_assemble:
  assumes "list_all is_ws lead" "chunk_ok c0" "\<forall>(s, c) \<in> set rest. blank_run s \<and> chunk_ok c"
    "list_all is_ws trail"
  shows "filter (\<lambda>p. p \<noteq> []) (map trim (js_split (assemble lead c0 rest trail))) = c0 # map snd rest"
proof -
  define Y where "Y = c0 @ concat (map (\<lambda>(s, c). s @ c) rest) @ trail"
  have "tail_ok Y" using assms(2) by (cases c0) (auto simp: tail_ok_def chunk_ok_def Y_def)
  from kept_lead [OF assms(1) this] obtain cur where
    cur: "list_all is_ws cur" and k: "kept [] (lead @ Y) = kept cur Y" by blast
  have "kept cur Y = c0 # map snd rest"
    unfolding Y_def by (rule kept_chunks [OF cur assms(2,3,4)])
  with k show ?thesis by (simp add: kept_def js_split_def assemble_def Y_def)
qed

lemma mk_draft_para_fields:
  "p_text \<circ> mk_draft_para mint k = snd"
  "sourceDraftIndex \<circ> mk_draft_para mint k = (\<lambda>_. Some k)"
  "sourceParaIndex \<circ> mk_draft_para mint k = Some \<circ> fst"
  "p_id \<circ> mk_draft_para mint k = draft_para_id mint k \<circ> fst"
  "originalId \<circ> mk_draft_para mint k = Some \<circ> p_id \<circ> mk_draft_para mint k"
  by (auto simp: mk_draft_para_def fun_eq_iff)

lemma map_fst_enumerate_comp: "map (f \<circ> fst) (enumerate 0 xs) = map f [0..<length xs]"
proof -
  have "map (f \<circ> fst) (enumerate 0 xs) = map f (map fst (enumerate 0 xs))"
    by (simp only: map_map)
  then show ?thesis by (simp add: map_fst_enumerate)
qed

lemma parseTextToParagraphs_assembled:
  assumes "list_all is_ws lead" "chunk_ok c0"
    "\<forall>(s, c) \<in> set rest. blank_run s \<and> chunk_ok c" "list_all is_ws trail"
  shows "let ps = parseTextToParagraphs mint (assemble lead c0 rest trail) k;
             n = Suc (length rest)
         in length ps = n \<and>
            map p_text ps = c0 # map snd rest \<and>
            map sourceDraftIndex ps = replicate n (Some k) \<and>
            map sourceParaIndex ps = map Some [0..<n] \<and>
            map p_id ps = map (draft_para_id mint k) [0..<n] \<and>
            map originalId ps = map (Some \<circ> p_id) ps"
proof -
  define cs where "cs = c0 # map snd rest"
  define ps where "ps = parseTextToParagraphs mint (assemble lead c0 rest trail) k"
  have ps: "ps = map (mk_draft_para mint k) (enumerate 0 cs)"
    using kept_assemble [OF assms] by (simp add: parseTextToParagraphs_def ps_def cs_def)
  have n: "length cs = Suc (length rest)" by (simp add: cs_def)
  have 1: "length ps = Suc (length rest)" by (simp add: ps n)
  have 2: "map p_text ps = cs" by (simp add: ps mk_draft_para_fields)
  have 3: "map sourceDraftIndex ps = replicate (Suc (length rest)) (Some k)"
    using n by (simp add: ps mk_draft_para_fields map_replicate_const del: replicate_Suc)
  have 4: "map sourceParaIndex ps = map Some [0..<Suc (length rest)]"
    using map_fst_enumerate_comp [of Some cs] n by (simp add: ps mk_draft_para_fields del: upt_Suc)
  have 5: "map p_id ps = map (draft_para_id mint k) [0..<Suc (length rest)]"
    using map_fst_enumerate_comp [of "draft_para_id mint k" cs] n
    by (simp add: ps mk_draft_para_fields del: upt_Suc)
  have 6: "map originalId ps = map (Some \<circ> p_id) ps"
    by (simp add: ps mk_draft_para_fields comp_assoc)
  show ?thesis using 1 2 3 4 5 6 unfolding Let_def ps_def [symmetric] cs_def by blast
qed

lemma last_dropWhile: "dropWhile P xs \<noteq> [] \<Longrightarrow> last (dropWhile P xs) = last xs"
proof -
  assume "dropWhile P xs \<noteq> []"
  then have "last (takeWhile P xs @ dropWhile P xs) = last (dropWhile P xs)"
    by (rule last_appendR)
  then show ?thesis by (simp only: takeWhile_dropWhile_id)
qed

lemma trim_ends:
  assumes "trim s \<noteq> []"
  shows "\<not> is_ws (hd (trim s))" and "\<not> is_ws (last (trim s))"
proof -
  define u where "u = dropWhile is_ws s"
  define v where "v = dropWhile is_ws (rev u)"
  have t: "trim s = rev v" by (simp add: trim_def u_def v_def)
  with assms have v: "v \<noteq> []" by simp
  then have ru: "rev u \<noteq> []" by (auto simp: v_def)
  then have u: "u \<noteq> []" by simp
  have "\<not> is_ws (hd v)" using v unfolding v_def by (rule hd_dropWhile)
  then show "\<not> is_ws (last (trim s))" using v by (simp add: t last_rev)
  have "last v = last (rev u)" using v unfolding v_def by (rule last_dropWhile)
  also have "\<dots> = hd u" using u by (simp add: last_rev)
  finally have "hd (trim s) = hd u" using v by (simp add: t hd_rev)
  moreover have "\<not> is_ws (hd u)" using u unfolding u_def by (rule hd_dropWhile)
  ultimately show "\<not> is_ws (hd (trim s))" by simp
qed

lemma parseTextToParagraphs_every_input:
  "\<forall>p \<in> set (parseTextToParagraphs mint txt k).
      p_text p \<noteq> [] \<and> \<not> is_ws (hd (p_text p)) \<and> \<not> is_ws (last (p_text p)) \<and>
      sourceDraftIndex p = Some k \<and> originalId p = Some (p_id p)"
proof
  fix p
  assume "p \<in> set (parseTextToParagraphs mint txt k)"
  then obtain i t where it: "(i, t) \<in> set (enumerate 0 (filter (\<lambda>p. p \<noteq> []) (map trim (js_split txt))))"
    and p: "p = mk_draft_para mint k (i, t)"
    by (auto simp: parseTextToParagraphs_def)
  from it have "t \<in> snd ` set (enumerate 0 (filter (\<lambda>p. p \<noteq> []) (map trim (js_split txt))))"
    by force
  then have "t \<in> set (filter (\<lambda>p. p \<noteq> []) (map trim (js_split txt)))"
    by (simp only: set_map [symmetric] map_snd_enumerate)
  then obtain c where "t = trim c" "trim c \<noteq> []" by auto
  with trim_ends [of c] have "t \<noteq> []" "\<not> is_ws (hd t)" "\<not> is_ws (last t)" by simp_all
  then show "p_text p \<noteq> [] \<and> \<not> is_ws (hd (p_text p)) \<and> \<not> is_ws (last (p_text p)) \<and>
      sourceDraftIndex p = Some k \<and> originalId p = Some (p_id p)"
    by (simp add: p mk_draft_para_def)
qed

lemma parseTextToParagraphs_positions:
  "map sourceParaIndex (parseTextToParagraphs mint txt k) =
     map Some [0..<length (parseTextToParagraphs mint txt k)]"
  using map_fst_enumerate_comp [of Some "filter (\<lambda>p. p \<noteq> []) (map trim (js_split txt))"]
  by (simp add: parseTextToParagraphs_def mk_draft_para_fields)

lemma string_of_nat_nonempty: "string_of_nat n \<noteq> []"
  by (subst string_of_nat.simps) simp

lemma unat_digit: "a < 10 \<Longrightarrow> unat (of_nat (48 + a) :: code_unit) = 48 + a"
  by (simp add: unat_of_nat del: of_nat_add)

lemma digit_inj:
  assumes "a < 10" "b < 10" "(of_nat (48 + a) :: code_unit) = of_nat (48 + b)"
  shows "a = b"
proof -
  from assms(3) have "unat (of_nat (48 + a) :: code_unit) = unat (of_nat (48 + b) :: code_unit)"
    by (rule arg_cong)
  then have "48 + a = 48 + b" by (simp only: unat_digit [OF assms(1)] unat_digit [OF assms(2)])
  then show ?thesis by simp
qed

lemma digit_not_dash: "a < 10 \<Longrightarrow> (of_nat (48 + a) :: code_unit) \<noteq> 45"
proof
  assume a: "a < 10" and "(of_nat (48 + a) :: code_unit) = 45"
  then have "unat (of_nat (48 + a) :: code_unit) = unat (45 :: code_unit)" by (simp only:)
  then have "48 + a = unat (45 :: code_unit)" by (simp only: unat_digit [OF a])
  then show False by simp
qed

lemma string_of_nat_no_dash: "45 \<notin> set (string_of_nat n)"
proof (induction n rule: string_of_nat.induct)
  case (1 n)
  show ?case
  proof (cases "n < 10")
    case True
    then show ?thesis using digit_not_dash [of n] by (subst string_of_nat.simps) auto
  next
    case False
    have "n mod 10 < 10" by simp
    from digit_not_dash [OF this] "1.IH" [OF False] False
    show ?thesis by (subst string_of_nat.simps) auto
  qed
qed

lemma string_of_nat_inj: "string_of_nat a = string_of_nat b \<Longrightarrow> a = b"
proof (induction a arbitrary: b rule: string_of_nat.induct)
  case (1 a)
  have sa: "string_of_nat a =
      (if a < 10 then [of_nat (48 + a)] else string_of_nat (a div 10) @ [of_nat (48 + a mod 10)])"
    by (rule string_of_nat.simps)
  have sb: "string_of_nat b =
      (if b < 10 then [of_nat (48 + b)] else string_of_nat (b div 10) @ [of_nat (48 + b mod 10)])"
    by (rule string_of_nat.simps)
  show ?case
  proof (cases "a < 10")
    case True
    show ?thesis
    proof (cases "b < 10")
      case b: True
      from "1.prems" have "(of_nat (48 + a) :: code_unit) = of_nat (48 + b)"
        using True b by (simp add: sa sb)
      then show ?thesis by (rule digit_inj [OF True b])
    next
      case False
      with "1.prems" True string_of_nat_nonempty [of "b div 10"] show ?thesis
        by (simp add: sa sb)
    qed
  next
    case False
    show ?thesis
    proof (cases "b < 10")
      case True
      with "1.prems" False string_of_nat_nonempty [of "a div 10"] show ?thesis
        by (simp add: sa sb)
    next
      case b: False
      from "1.prems" False b have
        eq: "string_of_nat (a div 10) @ [of_nat (48 + a mod 10)] =
             string_of_nat (b div 10) @ [of_nat (48 + b mod 10)]"
        by (simp add: sa sb)
      then have "string_of_nat (a div 10) = string_of_nat (b div 10)"
        and d: "(of_nat (48 + a mod 10) :: code_unit) = of_nat (48 + b mod 10)" by simp_all
      from "1.IH" [OF False this(1)] have q: "a div 10 = b div 10" .
      have "a mod 10 = b mod 10" by (rule digit_inj [OF _ _ d]) simp_all
      with q show ?thesis by (metis div_mult_mod_eq)
    qed
  qed
qed

lemma takeWhile_digits:
  "takeWhile (\<lambda>c. c \<noteq> 45) (string_of_nat n @ 45 # rest) = string_of_nat n"
proof -
  have "\<And>x. x \<in> set (string_of_nat n) \<Longrightarrow> x \<noteq> 45"
    using string_of_nat_no_dash [of n] by auto
  then have "takeWhile (\<lambda>c. c \<noteq> 45) (string_of_nat n @ 45 # rest) =
      string_of_nat n @ takeWhile (\<lambda>c. c \<noteq> 45) (45 # rest)"
    by (rule takeWhile_append2)
  then show ?thesis by simp
qed

lemma lit_dash: "lit ''-'' = [45]"
  by (simp add: lit_def)

lemma draft_para_id_inj: "draft_para_id mint k i = draft_para_id mint k j \<Longrightarrow> i = j"
proof -
  assume "draft_para_id mint k i = draft_para_id mint k j"
  then have "string_of_nat i @ 45 # mint i = string_of_nat j @ 45 # mint j"
    by (simp add: draft_para_id_def lit_dash)
  then have "takeWhile (\<lambda>c. c \<noteq> 45) (string_of_nat i @ 45 # mint i) =
      takeWhile (\<lambda>c. c \<noteq> 45) (string_of_nat j @ 45 # mint j)" by simp
  then have "string_of_nat i = string_of_nat j" by (simp only: takeWhile_digits)
  then show "i = j" by (rule string_of_nat_inj)
qed

lemma parseTextToParagraphs_ids:
  "map p_id (parseTextToParagraphs mint txt k) =
     map (draft_para_id mint k) [0..<length (parseTextToParagraphs mint txt k)]"
  using map_fst_enumerate_comp [of "draft_para_id mint k"
      "filter (\<lambda>p. p \<noteq> []) (map trim (js_split txt))"]
  by (simp add: parseTextToParagraphs_def mk_draft_para_fields)

lemma parseTextToParagraphs_ids_distinct:
  "distinct (map p_id (parseTextToParagraphs mint txt k))"
  unfolding parseTextToParagraphs_ids
  by (auto simp: distinct_map inj_on_def dest: draft_para_id_inj)

lemma parseTextToParagraphs_ids_nonempty:
  "\<forall>p \<in> set (parseTextToParagraphs mint txt k). p_id p \<noteq> []"
  by (auto simp: parseTextToParagraphs_def mk_draft_para_def draft_para_id_def lit_def)

lemma draft_para_id_fun:
  "draft_para_id mint k = (\<lambda>i. lit ''draft-'' @ string_of_nat k @ lit ''-'' @ string_of_nat i @ lit ''-'' @ mint i)"
  by (simp add: draft_para_id_def fun_eq_iff)

text \<open>
  Claim C1. For every input and draft index, the Splitter splits on runs of two or more
  line feeds with whitespace allowed between them, trims every chunk and drops the empty
  ones: the texts of the paragraphs it returns are
  \<open>filter (\<noteq> "") (map trim (split txt))\<close> in that order, every text is non-empty with no
  whitespace at either end, every paragraph carries the given draft index, and
  \<open>sourceParaIndex\<close> counts the paragraphs from zero. The id of the paragraph at position
  \<open>i\<close> is the text \<open>draft-\<close>, the draft index, \<open>-\<close>, \<open>i\<close>, \<open>-\<close> and the token minted by the
  call for that chunk; it is not empty, no two paragraphs of one result share an id, and
  \<open>originalId\<close> is that same id. For an input made of \<open>N = 1 + length rest\<close> chunks
  separated by blank-line runs (with any whitespace before the first and after the last),
  the result has exactly \<open>N\<close> paragraphs, in the order of the chunks, each with the chunk
  as its text.
\<close>

theorem parseTextToParagraphs_chunks:
  "map p_text (parseTextToParagraphs mint txt k) =
     filter (\<lambda>p. p \<noteq> []) (map trim (js_split txt)) \<and>
   (\<forall>p \<in> set (parseTextToParagraphs mint txt k).
      p_text p \<noteq> [] \<and> \<not> is_ws (hd (p_text p)) \<and> \<not> is_ws (last (p_text p)) \<and>
      sourceDraftIndex p = Some k \<and> p_id p \<noteq> [] \<and> originalId p = Some (p_id p)) \<and>
   map sourceParaIndex (parseTextToParagraphs mint txt k) =
     map Some [0..<length (parseTextToParagraphs mint txt k)] \<and>
   map p_id (parseTextToParagraphs mint txt k) =
     map (\<lambda>i. lit ''draft-'' @ string_of_nat k @ lit ''-'' @ string_of_nat i @ lit ''-'' @ mint i)
       [0..<length (parseTextToParagraphs mint txt k)] \<and>
   distinct (map p_id (parseTextToParagraphs mint txt k)) \<and>
   (list_all is_ws lead \<and> chunk_ok c0 \<and> (\<forall>(s, c) \<in> set rest. blank_run s \<and> chunk_ok c) \<and>
    list_all is_ws trail \<longrightarrow>
      (let ps = parseTextToParagraphs mint (assemble lead c0 rest trail) k;
           n = Suc (length rest)
       in length ps = n \<and>
          map p_text ps = c0 # map snd rest \<and>
          map sourceDraftIndex ps = replicate n (Some k) \<and>
          map sourceParaIndex ps = map Some [0..<n] \<and>
          map p_id ps =
            map (\<lambda>i. lit ''draft-'' @ string_of_nat k @ lit ''-'' @ string_of_nat i @ lit ''-'' @ mint i)
              [0..<n] \<and>
          map originalId ps = map (Some \<circ> p_id) ps))"
proof -
  have 1: "map p_text (parseTextToParagraphs mint txt k) =
      filter (\<lambda>p. p \<noteq> []) (map trim (js_split txt))"
    by (simp add: parseTextToParagraphs_def mk_draft_para_fields)
  have 2: "\<forall>p \<in> set (parseTextToParagraphs mint txt k).
      p_text p \<noteq> [] \<and> \<not> is_ws (hd (p_text p)) \<and> \<not> is_ws (last (p_text p)) \<and>
      sourceDraftIndex p = Some k \<and> p_id p \<noteq> [] \<and> originalId p = Some (p_id p)"
    using parseTextToParagraphs_every_input [of mint "txt" k]
      parseTextToParagraphs_ids_nonempty [of mint "txt" k]
    by blast
  note 3 = parseTextToParagraphs_positions [of mint "txt" k]
  note 4 = parseTextToParagraphs_ids [of mint "txt" k, unfolded draft_para_id_fun]
  note 5 = parseTextToParagraphs_ids_distinct [of mint "txt" k]
  note 6 = parseTextToParagraphs_assembled [of lead c0 rest trail mint k,
      unfolded draft_para_id_fun]
  show ?thesis using 1 2 3 4 5 6 by blast
qed

theorem parseTextToParagraphs_chunks_witness:
  "chunk_ok (lit ''A'') \<and> blank_run [LF, LF] \<and> chunk_ok (lit ''B'') \<and> blank_run [LF, LF, LF] \<and>
   chunk_ok (lit ''C'') \<and>
   parseTextToParagraphs (\<lambda>i. lit ''t'')
     (lit ''A'' @ [LF, LF] @ lit ''B'' @ [LF, LF, LF] @ lit ''C'') 0 =
     [\<lparr>p_id = [100, 114, 97, 102, 116, 45, 48, 45, 48, 45, 116], p_text = [65],
        sourceDraftIndex = Some 0, sourceParaIndex = Some 0,
        originalId = Some [100, 114, 97, 102, 116, 45, 48, 45, 48, 45, 116]\<rparr>,
      \<lparr>p_id = [100, 114, 97, 102, 116, 45, 48, 45, 49, 45, 116], p_text = [66],
        sourceDraftIndex = Some 0, sourceParaIndex = Some 1,
        originalId = Some [100, 114, 97, 102, 116, 45, 48, 45, 49, 45, 116]\<rparr>,
      \<lparr>p_id = [100, 114, 97, 102, 116, 45, 48, 45, 50, 45, 116], p_text = [67],
        sourceDraftIndex = Some 0, sourceParaIndex = Some 2,
        originalId = Some [100, 114, 97, 102, 116, 45, 48, 45, 50, 45, 116]\<rparr>]"
proof -
  have chunks: "chunk_ok (lit ''A'')" "blank_run [LF, LF]" "chunk_ok (lit ''B'')"
    "blank_run [LF, LF, LF]" "chunk_ok (lit ''C'')"
    by (simp_all add: chunk_ok_def blank_run_def is_ws_def LF_def lit_def)
  then have "list_all is_ws [] \<and> chunk_ok (lit ''A'') \<and>
      (\<forall>(s, c) \<in> set [([LF, LF], lit ''B''), ([LF, LF, LF], lit ''C'')]. blank_run s \<and> chunk_ok c) \<and>
      list_all is_ws []"
    by simp
  then have "let ps = parseTextToParagraphs (\<lambda>i. lit ''t'')
        (assemble [] (lit ''A'') [([LF, LF], lit ''B''), ([LF, LF, LF], lit ''C'')] []) 0;
        n = Suc (length [([LF, LF], lit ''B''), ([LF, LF, LF], lit ''C'')])
      in length ps = n \<and>
         map p_text ps = lit ''A'' # map snd [([LF, LF], lit ''B''), ([LF, LF, LF], lit ''C'')] \<and>
         map sourceDraftIndex ps = replicate n (Some 0) \<and>
         map sourceParaIndex ps = map Some [0..<n] \<and>
         map p_id ps =
           map (\<lambda>i. lit ''draft-'' @ string_of_nat 0 @ lit ''-'' @ string_of_nat i @ lit ''-''
                  @ lit ''t'') [0..<n] \<and>
         map originalId ps = map (Some \<circ> p_id) ps"
    by (rule parseTextToParagraphs_chunks [of "\<lambda>i. lit ''t''" "[]" 0 "[]" "lit ''A''"
      "[([LF, LF], lit ''B''), ([LF, LF, LF], lit ''C'')]" "[]",
      THEN conjunct2, THEN conjunct2, THEN conjunct2, THEN conjunct2, THEN conjunct2, THEN mp])
  then have "map p_text (parseTextToParagraphs (\<lambda>i. lit ''t'')
        (assemble [] (lit ''A'') [([LF, LF], lit ''B''), ([LF, LF, LF], lit ''C'')] []) 0) =
      [lit ''A'', lit ''B'', lit ''C'']"
    by (simp add: Let_def)
  then have "filter (\<lambda>p. p \<noteq> []) (map trim (js_split
      (lit ''A'' @ [LF, LF] @ lit ''B'' @ [LF, LF, LF] @ lit ''C''))) = [[65], [66], [67]]"
    by (simp add: parseTextToParagraphs_def mk_draft_para_fields assemble_def lit_def)
  then have "parseTextToParagraphs (\<lambda>i. lit ''t'')
      (lit ''A'' @ [LF, LF] @ lit ''B'' @ [LF, LF, LF] @ lit ''C'') 0 =
      map (mk_draft_para (\<lambda>i. lit ''t'') 0) (enumerate 0 [[65], [66], [67]])"
    by (simp only: parseTextToParagraphs_def)
  then show ?thesis
    using chunks
    by (simp add: mk_draft_para_def draft_para_id_def string_of_nat.simps lit_def)
qed

section \<open>Reordering\<close>

lemma insert_then_remove:
  assumes "b \<le> length zs"
  shows "js_index (take b zs @ [x] @ drop b zs) b = x"
    and "take b (take b zs @ [x] @ drop b zs) @ drop (Suc b) (take b zs @ [x] @ drop b zs) = zs"
  using assms by (simp_all add: js_index_def nth_append min_absorb2)

lemma remove_then_insert:
  assumes "a < length xs"
  shows "take a (take a xs @ drop (Suc a) xs) @ [xs ! a] @ drop a (take a xs @ drop (Suc a) xs) = xs"
  using assms by (simp add: min_absorb2 id_take_nth_drop [symmetric])

lemma moveParagraphInFinal_unfold:
  assumes "splice_start d (length prev) = a" "take a prev @ drop (Suc a) prev = zs"
    "splice_start h (length zs) = b"
  shows "moveParagraphInFinal d h prev = take b zs @ [js_index prev a] @ drop b zs"
  unfolding moveParagraphInFinal_def Let_def by (simp only: assms)

text \<open>
  Claim C6. For valid indices \<open>i\<close> and \<open>j\<close> of the Final Manuscript, \<open>move(i, j)\<close> followed by
  \<open>move(j, i)\<close> restores the original order. (The bound of two on the length is not needed:
  a valid index already makes the manuscript non-empty.)
\<close>

theorem moveParagraphInFinal_there_and_back:
  assumes "0 \<le> i" "i < int (length ps)" "0 \<le> j" "j < int (length ps)"
  shows "moveParagraphInFinal j i (moveParagraphInFinal i j (map Some ps)) = map Some ps"
proof -
  define xs where "xs = map Some ps"
  define a where "a = nat i"
  define b where "b = nat j"
  define zs where "zs = take a xs @ drop (Suc a) xs"
  have a: "a < length xs" and b: "b < length xs" using assms by (auto simp: a_def b_def xs_def)
  have lz: "length zs = length xs - 1" using a by (simp add: zs_def)
  have bz: "b \<le> length zs" using b lz by simp
  have az: "a \<le> length zs" using a lz by simp
  have sa: "splice_start i (length xs) = a" using assms a by (simp add: splice_start_def a_def)
  have sb: "splice_start j (length zs) = b" using assms bz by (simp add: splice_start_def b_def)
  have ra: "js_index xs a = xs ! a" using a by (simp add: js_index_def)
  define ys where "ys = take b zs @ [xs ! a] @ drop b zs"
  have 1: "moveParagraphInFinal i j xs = ys"
    using moveParagraphInFinal_unfold [OF sa zs_def [symmetric] sb] by (simp only: ra ys_def)
  have ly: "length ys = length xs" using a bz lz by (simp add: ys_def)
  have sb': "splice_start j (length ys) = b" using assms b ly by (simp add: splice_start_def b_def)
  have sa': "splice_start i (length zs) = a" using assms az by (simp add: splice_start_def a_def)
  have rb: "js_index ys b = xs ! a" unfolding ys_def by (rule insert_then_remove(1) [OF bz])
  have undo: "take b ys @ drop (Suc b) ys = zs" unfolding ys_def by (rule insert_then_remove(2) [OF bz])
  have "moveParagraphInFinal j i ys = take a zs @ [xs ! a] @ drop a zs"
    using moveParagraphInFinal_unfold [OF sb' undo sa'] by (simp only: rb)
  also have "\<dots> = xs" unfolding zs_def by (rule remove_then_insert [OF a])
  finally show ?thesis using 1 by (simp add: xs_def)
qed

theorem moveParagraphInFinal_there_and_back_witness:
  "moveParagraphInFinal 0 2 (map Some [1, 2, 3 :: nat]) = [Some 2, Some 3, Some 1] \<and>
   moveParagraphInFinal 2 0 (moveParagraphInFinal 0 2 (map Some [1, 2, 3 :: nat]))
     = map Some [1, 2, 3]"
proof -
  have "moveParagraphInFinal 0 2 (map Some [1, 2, 3 :: nat]) = [Some 2, Some 3, Some 1]"
    by (simp add: moveParagraphInFinal_def splice_start_def js_index_def)
  then show ?thesis
    using moveParagraphInFinal_there_and_back [of 0 "[1, 2, 3 :: nat]" 2] by simp
qed

section \<open>Removal by draft\<close>

lemma addAllFromDraft_Some:
  assumes "js_index (v_drafts v) k = Some d"
  shows "addAllFromDraft mint k v s =
           Inr (s\<lparr>finalParagraphs := finalParagraphs s @
                  map (fresh_entry mint)
                    (enumerate 0 (filter (\<lambda>p. p_id p \<notin> v_reflectedIds v) (paragraphs d)))\<rparr>)"
  using assms by (simp add: addAllFromDraft_def)

lemma filter_new_entries:
  assumes "\<forall>p \<in> set qs. sourceDraftIndex p = Some k"
  shows "filter (\<lambda>p. sourceDraftIndex p \<noteq> Some k) (map (fresh_entry mint) (enumerate n qs)) = []"
  using assms by (auto simp: filter_empty_conv in_set_enumerate_eq fresh_entry_def)

text \<open>
  Claim C7. \<open>removeAllFromDraft(k)\<close> keeps, in order, exactly the entries whose stored
  \<open>sourceDraftIndex\<close> is not \<open>k\<close>, and does not touch the drafts. The field is carried over
  when a paragraph is copied: after the paragraphs of draft \<open>k\<close> (tagged with \<open>k\<close>, as the
  Splitter tags them) have been added by \<open>addAllFromDraft\<close>, called from any render \<open>v\<close> that
  has the draft, and the draft's content has then been replaced, \<open>removeAllFromDraft(k)\<close>
  still removes every added entry.
\<close>

theorem removeAllFromDraft_after_replace:
  assumes "js_index (v_drafts v) k = Some d"
    "\<forall>p \<in> set (paragraphs d). sourceDraftIndex p = Some k"
    "addAllFromDraft mint k v s = Inr s1"
  shows "finalParagraphs (removeAllFromDraft k s) =
           filter (\<lambda>p. sourceDraftIndex p \<noteq> Some k) (finalParagraphs s) \<and>
         drafts (removeAllFromDraft k s) = drafts s \<and>
         finalParagraphs (updateDraftContent mint' k txt s1) = finalParagraphs s1 \<and>
         finalParagraphs (removeAllFromDraft k (updateDraftContent mint' k txt s1)) =
           filter (\<lambda>p. sourceDraftIndex p \<noteq> Some k) (finalParagraphs s)"
proof -
  define toAdd where "toAdd = filter (\<lambda>p. p_id p \<notin> v_reflectedIds v) (paragraphs d)"
  have "\<forall>p \<in> set toAdd. sourceDraftIndex p = Some k" using assms(2) by (simp add: toAdd_def)
  from filter_new_entries [OF this]
  have new: "filter (\<lambda>p. sourceDraftIndex p \<noteq> Some k)
      (map (fresh_entry mint) (enumerate 0 toAdd)) = []" .
  have s1: "finalParagraphs s1 = finalParagraphs s @ map (fresh_entry mint) (enumerate 0 toAdd)"
    using addAllFromDraft_Some [OF assms(1), of mint s] assms(3) by (auto simp: toAdd_def)
  show ?thesis
    by (simp add: removeAllFromDraft_def updateDraftContent_def s1 new)
qed

theorem removeAllFromDraft_after_replace_witness:
  "finalParagraphs (removeAllFromDraft 0
      (updateDraftContent (\<lambda>_. lit ''u'') 0 (lit ''new'')
         \<lparr>drafts = [Some \<lparr>d_id = Some 1, title = None, customTitle = None,
                     paragraphs = parseTextToParagraphs (\<lambda>_. lit ''t'') (lit ''old'') 0\<rparr>],
          finalParagraphs =
            map (fresh_entry (\<lambda>_. lit ''f''))
              (enumerate 0 (parseTextToParagraphs (\<lambda>_. lit ''t'') (lit ''old'') 0)),
          dismissedParagraphIds = {}\<rparr>)) = []"
proof -
  define d where "d = \<lparr>d_id = Some 1, title = None, customTitle = None,
                     paragraphs = parseTextToParagraphs (\<lambda>_. lit ''t'') (lit ''old'') 0\<rparr>"
  define s where "s = \<lparr>drafts = [Some d], finalParagraphs = [], dismissedParagraphIds = {}\<rparr>"
  define v where "v = \<lparr>v_drafts = [Some d], v_reflectedIds = {}\<rparr>"
  have 1: "js_index (v_drafts v) 0 = Some d" by (simp add: v_def js_index_def)
  have 2: "\<forall>p \<in> set (paragraphs d). sourceDraftIndex p = Some 0"
    by (auto simp: d_def parseTextToParagraphs_def mk_draft_para_def)
  have 3: "addAllFromDraft (\<lambda>_. lit ''f'') 0 v s =
      Inr \<lparr>drafts = [Some d],
           finalParagraphs =
             map (fresh_entry (\<lambda>_. lit ''f''))
               (enumerate 0 (parseTextToParagraphs (\<lambda>_. lit ''t'') (lit ''old'') 0)),
           dismissedParagraphIds = {}\<rparr>"
    by (simp add: addAllFromDraft_Some [OF 1]) (simp add: s_def d_def v_def)
  show ?thesis
    using removeAllFromDraft_after_replace [OF 1 2 3, of "\<lambda>_. lit ''u''" "lit ''new''"]
    by (simp add: s_def d_def)
qed

section \<open>Entries without a source draft\<close>

lemma final_copy_sourceDraftIndex: "sourceDraftIndex (final_copy tok p) = sourceDraftIndex p"
  by (simp add: final_copy_def)

lemma addParagraphToFinal_mem:
  "final_copy tok p \<in> set (finalParagraphs (addParagraphToFinal tok p atIndex s))"
  by (cases atIndex) (simp_all add: addParagraphToFinal_def Let_def)

lemma fold_removeAllFromDraft:
  "finalParagraphs (fold removeAllFromDraft ks s) =
     filter (\<lambda>p. \<forall>k \<in> set ks. sourceDraftIndex p \<noteq> Some k) (finalParagraphs s)"
proof (induction ks arbitrary: s)
  case Nil
  show ?case by simp
next
  case (Cons k ks)
  show ?case by (simp add: Cons.IH) (auto simp: removeAllFromDraft_def intro: filter_cong)
qed

text \<open>
  Claim C10. \<open>removeAllFromDraft(k)\<close> leaves the entries without a \<open>sourceDraftIndex\<close> in
  place and in order. An image paragraph and a paragraph of polished AI output are built
  without that field, and the copy \<open>addParagraphToFinal\<close> makes keeps it absent, so such an
  entry is still in the Final Manuscript after any sequence \<open>ks\<close> of \<open>removeAllFromDraft\<close>
  calls.
\<close>

theorem removeAllFromDraft_keeps_untagged:
  "filter (\<lambda>p. sourceDraftIndex p = None) (finalParagraphs (removeAllFromDraft k s)) =
     filter (\<lambda>p. sourceDraftIndex p = None) (finalParagraphs s) \<and>
   final_copy tok (image_paragraph now fname base64) \<in>
     set (finalParagraphs (fold removeAllFromDraft ks
            (addParagraphToFinal tok (image_paragraph now fname base64) atIndex s))) \<and>
   sourceDraftIndex (polished_paragraph now idx txt) = None \<and>
   (polished_paragraph now idx txt \<in> set (finalParagraphs s) \<longrightarrow>
      polished_paragraph now idx txt \<in> set (finalParagraphs (fold removeAllFromDraft ks s)))"
proof -
  have 1: "filter (\<lambda>p. sourceDraftIndex p = None) (finalParagraphs (removeAllFromDraft k s)) =
      filter (\<lambda>p. sourceDraftIndex p = None) (finalParagraphs s)"
    by (auto simp: removeAllFromDraft_def intro: filter_cong)
  have "sourceDraftIndex (final_copy tok (image_paragraph now fname base64)) = None"
    by (simp add: final_copy_sourceDraftIndex image_paragraph_def)
  then have 2: "final_copy tok (image_paragraph now fname base64) \<in>
      set (finalParagraphs (fold removeAllFromDraft ks
             (addParagraphToFinal tok (image_paragraph now fname base64) atIndex s)))"
    using addParagraphToFinal_mem [of tok "image_paragraph now fname base64" atIndex s]
    by (simp add: fold_removeAllFromDraft)
  have 3: "sourceDraftIndex (polished_paragraph now idx txt) = None"
    by (simp add: polished_paragraph_def)
  then have 4: "polished_paragraph now idx txt \<in> set (finalParagraphs s) \<longrightarrow>
      polished_paragraph now idx txt \<in> set (finalParagraphs (fold removeAllFromDraft ks s))"
    by (simp add: fold_removeAllFromDraft)
  show ?thesis using 1 2 3 4 by blast
qed

theorem removeAllFromDraft_keeps_untagged_witness:
  "finalParagraphs (removeAllFromDraft 0
     \<lparr>drafts = [],
      finalParagraphs =
        [\<lparr>p_id = lit ''final-1'', p_text = lit ''a'', sourceDraftIndex = Some 0,
           sourceParaIndex = Some 0, originalId = Some (lit ''draft-0-0-1'')\<rparr>,
         polished_paragraph (lit ''5'') 0 (lit ''b'')],
      dismissedParagraphIds = {}\<rparr>) = [polished_paragraph (lit ''5'') 0 (lit ''b'')]"
  using removeAllFromDraft_keeps_untagged [of 0
     "\<lparr>drafts = [],
      finalParagraphs =
        [\<lparr>p_id = lit ''final-1'', p_text = lit ''a'', sourceDraftIndex = Some 0,
           sourceParaIndex = Some 0, originalId = Some (lit ''draft-0-0-1'')\<rparr>,
         polished_paragraph (lit ''5'') 0 (lit ''b'')],
      dismissedParagraphIds = {}\<rparr>" _ "lit ''5''" _ _ "[0]" _ 0 "lit ''b''"]
  by (simp add: removeAllFromDraft_def polished_paragraph_def)

section \<open>Loading\<close>

lemma initialise_default:
  assumes "stored = Inr None \<or> (\<exists>txt. stored = Inr (Some txt) \<and> JSON_parse txt = SyntaxError)"
  shows "initialise JSON_parse stored field dflt = Inr dflt"
  using assms by (auto simp: initialise_def)

text \<open>
  Claim C8. When the stored blob is missing (\<open>getItem\<close> returns \<open>null\<close>), or is a text that
  \<open>JSON.parse\<close> rejects, loading does not fail and the three initialisers yield the
  default state: the three drafts with ids 1, 2, 3, the fixed titles (the two Hangul
  syllables of the source, a space and the digit), an empty alias and no paragraphs, an
  empty Final Manuscript and an empty dismissed set.
\<close>

theorem initial_state_default:
  assumes "stored = Inr None \<or> (\<exists>txt. stored = Inr (Some txt) \<and> JSON_parse txt = SyntaxError)"
  shows "initial_state JSON_parse stored =
           Inr \<lparr>drafts =
              [Some \<lparr>d_id = Some 1, title = Some [0xCD08, 0xC548, 32, 49], customTitle = Some [],
                     paragraphs = []\<rparr>,
               Some \<lparr>d_id = Some 2, title = Some [0xCD08, 0xC548, 32, 50], customTitle = Some [],
                     paragraphs = []\<rparr>,
               Some \<lparr>d_id = Some 3, title = Some [0xCD08, 0xC548, 32, 51], customTitle = Some [],
                     paragraphs = []\<rparr>],
            finalParagraphs = [], dismissedParagraphIds = {}\<rparr> \<and>
         initial_state JSON_parse stored = Inr default_state"
proof -
  have "initial_state JSON_parse stored = Inr default_state"
    by (simp add: initial_state_def default_state_def initialise_default [OF assms])
  then show ?thesis by (simp add: default_state_def default_drafts_def)
qed

theorem initial_state_default_witness:
  "initial_state (\<lambda>_. SyntaxError) (Inr (Some (lit ''{oops''))) =
           Inr \<lparr>drafts =
              [Some \<lparr>d_id = Some 1, title = Some [0xCD08, 0xC548, 32, 49], customTitle = Some [],
                     paragraphs = []\<rparr>,
               Some \<lparr>d_id = Some 2, title = Some [0xCD08, 0xC548, 32, 50], customTitle = Some [],
                     paragraphs = []\<rparr>,
               Some \<lparr>d_id = Some 3, title = Some [0xCD08, 0xC548, 32, 51], customTitle = Some [],
                     paragraphs = []\<rparr>],
            finalParagraphs = [], dismissedParagraphIds = {}\<rparr> \<and>
   initial_state (\<lambda>_. JsonNull) (Inr None) =
           Inr \<lparr>drafts =
              [Some \<lparr>d_id = Some 1, title = Some [0xCD08, 0xC548, 32, 49], customTitle = Some [],
                     paragraphs = []\<rparr>,
               Some \<lparr>d_id = Some 2, title = Some [0xCD08, 0xC548, 32, 50], customTitle = Some [],
                     paragraphs = []\<rparr>,
               Some \<lparr>d_id = Some 3, title = Some [0xCD08, 0xC548, 32, 51], customTitle = Some [],
                     paragraphs = []\<rparr>],
            finalParagraphs = [], dismissedParagraphIds = {}\<rparr>"
  using initial_state_default [of "Inr (Some (lit ''{oops''))" "\<lambda>_. SyntaxError"]
    initial_state_default [of "Inr None" "\<lambda>_. JsonNull"]
  by simp

section \<open>AI Gateway\<close>

lemma gateway_request_errors_handled:
  assumes "construct env = Inr ai"
  shows "\<exists>r. polishManuscript env txt = Inr r" and "\<exists>r. suggestSynthesis env ds = Inr r"
    and "generateContent env ai (lit ''gemini-3-flash-preview'') (polish_instruction @ txt) = Inl e
         \<Longrightarrow> polishManuscript env txt = Inr txt"
    and "(\<forall>m p. generateContent env ai m p = Inl e) \<Longrightarrow> suggestSynthesis env ds = Inr failure_message"
  using assms by (auto simp: polishManuscript_def suggestSynthesis_def split: sum.splits)

text \<open>
  Claim C3 asks that no error escapes \<open>polish\<close> and \<open>synthesize\<close>. Errors of the request are
  handled (lemma \<open>gateway_request_errors_handled\<close>), but the client is constructed before
  the \<open>try\<close> block: when the constructor throws, both promises are rejected with that
  error.
\<close>

theorem gateway_constructor_error_escapes:
  "polishManuscript
     \<lparr>construct = Inl (ApiError (lit ''An API Key must be set when running in a browser'')),
      generateContent = (\<lambda>(ai :: unit) m p. Inr (Some (lit ''ok'')))\<rparr> (lit ''x'')
     = Inl (ApiError (lit ''An API Key must be set when running in a browser'')) \<and>
   suggestSynthesis
     \<lparr>construct = Inl (ApiError (lit ''An API Key must be set when running in a browser'')),
      generateContent = (\<lambda>(ai :: unit) m p. Inr (Some (lit ''ok'')))\<rparr> [lit ''a'', lit ''b'', lit ''c'']
     = Inl (ApiError (lit ''An API Key must be set when running in a browser''))"
  by (simp add: polishManuscript_def suggestSynthesis_def)

section \<open>Reflection Tracker\<close>

lemma reflectedIds_iff:
  "oid \<in> reflectedIds final \<longleftrightarrow> oid \<noteq> [] \<and> (\<exists>p \<in> set final. originalId p = Some oid)"
proof
  assume "oid \<in> reflectedIds final"
  then obtain p where p: "p \<in> set final" "truthy (originalId p)" "oid = the (originalId p)"
    by (auto simp: reflectedIds_def)
  from p(2,3) have "oid \<noteq> [] \<and> originalId p = Some oid"
    by (cases "originalId p") simp_all
  with p(1) show "oid \<noteq> [] \<and> (\<exists>p \<in> set final. originalId p = Some oid)"
    by blast
next
  assume "oid \<noteq> [] \<and> (\<exists>p \<in> set final. originalId p = Some oid)"
  then obtain p where p: "p \<in> set final" "originalId p = Some oid" "oid \<noteq> []" by blast
  then have "Some oid \<in> set (filter truthy (map originalId final))" by force
  then have "the (Some oid) \<in> the ` set (filter truthy (map originalId final))" by (rule imageI)
  then show "oid \<in> reflectedIds final" by (simp add: reflectedIds_def)
qed

lemma set_take_union_drop: "set (take n xs) \<union> set (drop n xs) = set xs"
proof -
  have "set (take n xs) \<union> set (drop n xs) = set (take n xs @ drop n xs)"
    by (simp only: set_append)
  then show ?thesis by (simp only: append_take_drop_id)
qed

lemma set_addParagraphToFinal:
  "set (finalParagraphs (addParagraphToFinal tok p atIndex s)) =
     insert (final_copy tok p) (set (finalParagraphs s))"
  by (cases atIndex) (simp_all add: addParagraphToFinal_def Let_def set_take_union_drop)

lemma reflectedIds_addParagraphToFinal:
  "reflectedIds (finalParagraphs (addParagraphToFinal tok p atIndex s)) =
     reflectedIds (finalParagraphs s) \<union> reflectedIds [final_copy tok p]"
  by (auto simp: reflectedIds_iff set_addParagraphToFinal)

lemma reflectedIds_removeAllFromDraft:
  "reflectedIds (finalParagraphs (removeAllFromDraft k s)) =
     {oid. oid \<noteq> [] \<and> (\<exists>p \<in> set (finalParagraphs s).
        sourceDraftIndex p \<noteq> Some k \<and> originalId p = Some oid)}"
  by (auto simp: reflectedIds_iff removeAllFromDraft_def)

lemma those_map_Some: "those (map Some xs) = Some xs"
  by (induction xs) simp_all

lemma those_eq_None_iff: "those arr = None \<longleftrightarrow> None \<in> set arr"
proof (induction arr)
  case Nil
  show ?case by simp
next
  case (Cons x arr)
  then show ?case by (cases x) (auto split: option.splits)
qed

lemma reflectedIds_of_array_defined:
  "reflectedIds_of_array (map Some final) = Inr (reflectedIds final)"
  by (simp add: reflectedIds_of_array_def those_map_Some)

lemma reflectedIds_of_array_undefined:
  "None \<in> set arr \<Longrightarrow> reflectedIds_of_array arr = Inl TypeError"
  using those_eq_None_iff [of arr] by (simp add: reflectedIds_of_array_def)

lemma useMemo_reflectedIds_ok:
  assumes "memo_ok cell"
  shows "useMemo_reflectedIds cell arr =
           (case reflectedIds_of_array arr of
              Inl e \<Rightarrow> Inl e
            | Inr ids \<Rightarrow> Inr \<lparr>memo_deps = arr, memo_value = ids\<rparr>)"
proof (cases cell)
  case None
  then show ?thesis by (simp add: useMemo_reflectedIds_def)
next
  case (Some m)
  show ?thesis
  proof (cases "memo_deps m = arr")
    case True
    with assms Some have "reflectedIds_of_array arr = Inr (memo_value m)"
      by (simp add: memo_ok_def)
    moreover have "m = \<lparr>memo_deps = arr, memo_value = memo_value m\<rparr>" using True by simp
    ultimately show ?thesis using Some True by (simp add: useMemo_reflectedIds_def)
  next
    case False
    with Some show ?thesis by (simp add: useMemo_reflectedIds_def)
  qed
qed

lemma useMemo_reflectedIds_keeps_ok:
  assumes "memo_ok cell" "useMemo_reflectedIds cell arr = Inr m"
  shows "memo_ok (Some m)"
  using assms(2) unfolding useMemo_reflectedIds_ok [OF assms(1)]
  by (auto simp: memo_ok_def split: sum.splits)

lemma renders_ok: "memo_ok cell \<Longrightarrow> renders cell arrs = Inr r \<Longrightarrow> memo_ok r"
proof (induction arrs arbitrary: cell)
  case Nil
  then show ?case by simp
next
  case (Cons arr arrs)
  show ?case
  proof (cases "useMemo_reflectedIds cell arr")
    case (Inl e)
    with Cons.prems(2) show ?thesis by simp
  next
    case (Inr m)
    from useMemo_reflectedIds_keeps_ok [OF Cons.prems(1) Inr] Cons.prems(2) Inr
    show ?thesis by (auto intro: Cons.IH)
  qed
qed

lemma renders_snoc:
  "renders cell (arrs @ [arr]) =
     (case renders cell arrs of
        Inl e \<Rightarrow> Inl e
      | Inr r \<Rightarrow> map_sum id Some (useMemo_reflectedIds r arr))"
  by (induction arrs arbitrary: cell) (auto split: sum.splits)

lemma render_ok:
  assumes "memo_ok cell"
  shows "render cell s =
           Inr (\<lparr>memo_deps = map Some (finalParagraphs s),
                  memo_value = reflectedIds (finalParagraphs s)\<rparr>,
                \<lparr>v_drafts = drafts s, v_reflectedIds = reflectedIds (finalParagraphs s)\<rparr>)"
  by (simp add: render_def useMemo_reflectedIds_ok [OF assms] reflectedIds_of_array_defined)

lemma reflectedIds_set:
  "reflectedIds final = {oid. oid \<noteq> [] \<and> (\<exists>p \<in> set final. originalId p = Some oid)}"
  by (auto simp: reflectedIds_iff)

text \<open>
  Claim C4, amended. After any sequence of renders that did not throw, a render of a
  Final Manuscript without undefined entries succeeds, and the reflected set it keeps in
  the memo and gives to its callbacks holds exactly the \<open>originalId\<close> values of that
  manuscript that are defined and not the empty string (\<open>filter(Boolean)\<close> drops both);
  the memo is then the one of that manuscript, whatever the cell held before, so no
  render sees a set left over from an older manuscript, and a render of the unchanged
  manuscript reuses the cell. A manuscript with an undefined
  entry makes the render throw. What a callback holds between two renders is the view of
  the last render; see the counterexample below.
\<close>

theorem reflectedIds_at_every_render:
  assumes "renders None arrs = Inr cell"
  shows "(\<exists>m. useMemo_reflectedIds cell (map Some final) = Inr m \<and>
              renders None (arrs @ [map Some final]) = Inr (Some m) \<and>
              memo_deps m = map Some final \<and>
              memo_value m = {oid. oid \<noteq> [] \<and> (\<exists>p \<in> set final. originalId p = Some oid)}) \<and>
         (None \<in> set arr \<longrightarrow>
            useMemo_reflectedIds cell arr = Inl TypeError \<and>
            renders None (arrs @ [arr]) = Inl TypeError) \<and>
         (\<exists>m. render cell s =
              Inr (m, \<lparr>v_drafts = drafts s,
                       v_reflectedIds =
                         {oid. oid \<noteq> [] \<and>
                               (\<exists>p \<in> set (finalParagraphs s). originalId p = Some oid)}\<rparr>)) \<and>
         useMemo_reflectedIds (Some m0) (memo_deps m0) = Inr m0"
proof -
  have ok: "memo_ok cell" using renders_ok [OF _ assms] by (simp add: memo_ok_def)
  have 4: "useMemo_reflectedIds (Some m0) (memo_deps m0) = Inr m0"
    by (simp add: useMemo_reflectedIds_def)
  define m where "m = \<lparr>memo_deps = map Some final, memo_value = reflectedIds final\<rparr>"
  have u: "useMemo_reflectedIds cell (map Some final) = Inr m"
    by (simp add: useMemo_reflectedIds_ok [OF ok] reflectedIds_of_array_defined m_def)
  then have r: "renders None (arrs @ [map Some final]) = Inr (Some m)"
    by (simp add: renders_snoc assms)
  have 1: "\<exists>m. useMemo_reflectedIds cell (map Some final) = Inr m \<and>
              renders None (arrs @ [map Some final]) = Inr (Some m) \<and>
              memo_deps m = map Some final \<and>
              memo_value m = {oid. oid \<noteq> [] \<and> (\<exists>p \<in> set final. originalId p = Some oid)}"
    using u r reflectedIds_set [of final] by (auto simp: m_def)
  have 2: "None \<in> set arr \<longrightarrow>
            useMemo_reflectedIds cell arr = Inl TypeError \<and>
            renders None (arrs @ [arr]) = Inl TypeError"
    by (simp add: useMemo_reflectedIds_ok [OF ok] reflectedIds_of_array_undefined renders_snoc
        assms)
  have 3: "\<exists>m. render cell s =
              Inr (m, \<lparr>v_drafts = drafts s,
                       v_reflectedIds =
                         {oid. oid \<noteq> [] \<and>
                               (\<exists>p \<in> set (finalParagraphs s). originalId p = Some oid)}\<rparr>)"
    using render_ok [OF ok, of s] reflectedIds_set [of "finalParagraphs s"] by simp
  show ?thesis using 1 2 3 4 by (intro conjI)
qed

theorem reflectedIds_at_every_render_witness:
  "renders None [[Some \<lparr>p_id = lit ''final-1'', p_text = lit ''a'', sourceDraftIndex = Some 0,
         sourceParaIndex = Some 0, originalId = Some (lit ''draft-0-0-1'')\<rparr>]] =
     Inr (Some \<lparr>memo_deps = [Some \<lparr>p_id = lit ''final-1'', p_text = lit ''a'', sourceDraftIndex = Some 0,
         sourceParaIndex = Some 0, originalId = Some (lit ''draft-0-0-1'')\<rparr>], memo_value = {lit ''draft-0-0-1''}\<rparr>) \<and>
   useMemo_reflectedIds
     (Some \<lparr>memo_deps = [Some \<lparr>p_id = lit ''final-1'', p_text = lit ''a'', sourceDraftIndex = Some 0,
         sourceParaIndex = Some 0, originalId = Some (lit ''draft-0-0-1'')\<rparr>], memo_value = {lit ''draft-0-0-1''}\<rparr>)
     [Some \<lparr>p_id = lit ''final-1'', p_text = lit ''a'', sourceDraftIndex = Some 0,
         sourceParaIndex = Some 0, originalId = Some (lit ''draft-0-0-1'')\<rparr>, Some \<lparr>p_id = lit ''polished-0-2'', p_text = lit ''b'', sourceDraftIndex = None,
         sourceParaIndex = None, originalId = None\<rparr>] =
     Inr \<lparr>memo_deps = [Some \<lparr>p_id = lit ''final-1'', p_text = lit ''a'', sourceDraftIndex = Some 0,
         sourceParaIndex = Some 0, originalId = Some (lit ''draft-0-0-1'')\<rparr>, Some \<lparr>p_id = lit ''polished-0-2'', p_text = lit ''b'', sourceDraftIndex = None,
         sourceParaIndex = None, originalId = None\<rparr>], memo_value = {lit ''draft-0-0-1''}\<rparr>"
proof -
  have 1: "renders None [[Some \<lparr>p_id = lit ''final-1'', p_text = lit ''a'', sourceDraftIndex = Some 0,
         sourceParaIndex = Some 0, originalId = Some (lit ''draft-0-0-1'')\<rparr>]] =
     Inr (Some \<lparr>memo_deps = [Some \<lparr>p_id = lit ''final-1'', p_text = lit ''a'', sourceDraftIndex = Some 0,
         sourceParaIndex = Some 0, originalId = Some (lit ''draft-0-0-1'')\<rparr>], memo_value = {lit ''draft-0-0-1''}\<rparr>)"
    by (simp add: useMemo_reflectedIds_def reflectedIds_of_array_def reflectedIds_def lit_def)
  from reflectedIds_at_every_render [OF 1, of "[\<lparr>p_id = lit ''final-1'', p_text = lit ''a'', sourceDraftIndex = Some 0,
         sourceParaIndex = Some 0, originalId = Some (lit ''draft-0-0-1'')\<rparr>, \<lparr>p_id = lit ''polished-0-2'', p_text = lit ''b'', sourceDraftIndex = None,
         sourceParaIndex = None, originalId = None\<rparr>]"]
  have "\<exists>m. useMemo_reflectedIds
      (Some \<lparr>memo_deps = [Some \<lparr>p_id = lit ''final-1'', p_text = lit ''a'', sourceDraftIndex = Some 0,
         sourceParaIndex = Some 0, originalId = Some (lit ''draft-0-0-1'')\<rparr>], memo_value = {lit ''draft-0-0-1''}\<rparr>)
      (map Some [\<lparr>p_id = lit ''final-1'', p_text = lit ''a'', sourceDraftIndex = Some 0,
         sourceParaIndex = Some 0, originalId = Some (lit ''draft-0-0-1'')\<rparr>, \<lparr>p_id = lit ''polished-0-2'', p_text = lit ''b'', sourceDraftIndex = None,
         sourceParaIndex = None, originalId = None\<rparr>]) = Inr m \<and>
      memo_deps m = map Some [\<lparr>p_id = lit ''final-1'', p_text = lit ''a'', sourceDraftIndex = Some 0,
         sourceParaIndex = Some 0, originalId = Some (lit ''draft-0-0-1'')\<rparr>, \<lparr>p_id = lit ''polished-0-2'', p_text = lit ''b'', sourceDraftIndex = None,
         sourceParaIndex = None, originalId = None\<rparr>] \<and>
      memo_value m = {oid. oid \<noteq> [] \<and> (\<exists>p \<in> set [\<lparr>p_id = lit ''final-1'', p_text = lit ''a'', sourceDraftIndex = Some 0,
         sourceParaIndex = Some 0, originalId = Some (lit ''draft-0-0-1'')\<rparr>, \<lparr>p_id = lit ''polished-0-2'', p_text = lit ''b'', sourceDraftIndex = None,
         sourceParaIndex = None, originalId = None\<rparr>]. originalId p = Some oid)}"
    by blast
  then obtain m where m: "useMemo_reflectedIds
      (Some \<lparr>memo_deps = [Some \<lparr>p_id = lit ''final-1'', p_text = lit ''a'', sourceDraftIndex = Some 0,
         sourceParaIndex = Some 0, originalId = Some (lit ''draft-0-0-1'')\<rparr>], memo_value = {lit ''draft-0-0-1''}\<rparr>)
      [Some \<lparr>p_id = lit ''final-1'', p_text = lit ''a'', sourceDraftIndex = Some 0,
         sourceParaIndex = Some 0, originalId = Some (lit ''draft-0-0-1'')\<rparr>, Some \<lparr>p_id = lit ''polished-0-2'', p_text = lit ''b'', sourceDraftIndex = None,
         sourceParaIndex = None, originalId = None\<rparr>] = Inr m"
    "memo_deps m = [Some \<lparr>p_id = lit ''final-1'', p_text = lit ''a'', sourceDraftIndex = Some 0,
         sourceParaIndex = Some 0, originalId = Some (lit ''draft-0-0-1'')\<rparr>, Some \<lparr>p_id = lit ''polished-0-2'', p_text = lit ''b'', sourceDraftIndex = None,
         sourceParaIndex = None, originalId = None\<rparr>]"
    "memo_value m = {oid. oid \<noteq> [] \<and> (\<exists>p \<in> set [\<lparr>p_id = lit ''final-1'', p_text = lit ''a'', sourceDraftIndex = Some 0,
         sourceParaIndex = Some 0, originalId = Some (lit ''draft-0-0-1'')\<rparr>, \<lparr>p_id = lit ''polished-0-2'', p_text = lit ''b'', sourceDraftIndex = None,
         sourceParaIndex = None, originalId = None\<rparr>]. originalId p = Some oid)}"
    by auto
  have "{oid. oid \<noteq> [] \<and> (\<exists>p \<in> set [\<lparr>p_id = lit ''final-1'', p_text = lit ''a'', sourceDraftIndex = Some 0,
         sourceParaIndex = Some 0, originalId = Some (lit ''draft-0-0-1'')\<rparr>, \<lparr>p_id = lit ''polished-0-2'', p_text = lit ''b'', sourceDraftIndex = None,
         sourceParaIndex = None, originalId = None\<rparr>]. originalId p = Some oid)} = {lit ''draft-0-0-1''}"
    by (auto simp: lit_def)
  with m(2,3) have "m = \<lparr>memo_deps = [Some \<lparr>p_id = lit ''final-1'', p_text = lit ''a'', sourceDraftIndex = Some 0,
         sourceParaIndex = Some 0, originalId = Some (lit ''draft-0-0-1'')\<rparr>, Some \<lparr>p_id = lit ''polished-0-2'', p_text = lit ''b'', sourceDraftIndex = None,
         sourceParaIndex = None, originalId = None\<rparr>], memo_value = {lit ''draft-0-0-1''}\<rparr>"
    by simp
  with m(1) 1 show ?thesis by simp
qed

text \<open>
  The claim as stated fails in three ways. An entry whose \<open>originalId\<close> is the empty string
  has a defined \<open>originalId\<close> that is not in the reflected set. The set is not recomputed
  after every mutation: after \<open>addAllFromDraft\<close> has queued its entries, a callback of the
  same render still holds the set of that render, in which the id just reflected is
  missing. And on the array that \<open>moveParagraphInFinal\<close> leaves for a drag index past the
  end, the derivation throws.
\<close>

theorem reflectedIds_counterexample:
  "useMemo_reflectedIds None [Some \<lparr>p_id = lit ''final-1'', p_text = lit ''a'', sourceDraftIndex = None,
         sourceParaIndex = None, originalId = Some []\<rparr>] =
     Inr \<lparr>memo_deps = [Some \<lparr>p_id = lit ''final-1'', p_text = lit ''a'', sourceDraftIndex = None,
         sourceParaIndex = None, originalId = Some []\<rparr>], memo_value = {}\<rparr> \<and>
   (case render None \<lparr>drafts = [Some \<lparr>d_id = Some 1, title = None, customTitle = None, paragraphs =
           [\<lparr>p_id = lit ''draft-0-0-1'', p_text = lit ''a'', sourceDraftIndex = Some 0,
              sourceParaIndex = Some 0, originalId = Some (lit ''draft-0-0-1'')\<rparr>]\<rparr>],
        finalParagraphs = [], dismissedParagraphIds = {}\<rparr> of
      Inl e \<Rightarrow> False
    | Inr (m, v) \<Rightarrow>
        (case addAllFromDraft (\<lambda>_. lit ''8'') 0 v \<lparr>drafts = [Some \<lparr>d_id = Some 1, title = None, customTitle = None, paragraphs =
           [\<lparr>p_id = lit ''draft-0-0-1'', p_text = lit ''a'', sourceDraftIndex = Some 0,
              sourceParaIndex = Some 0, originalId = Some (lit ''draft-0-0-1'')\<rparr>]\<rparr>],
        finalParagraphs = [], dismissedParagraphIds = {}\<rparr> of
           Inl e \<Rightarrow> False
         | Inr s1 \<Rightarrow>
             map originalId (finalParagraphs s1) = [Some (lit ''draft-0-0-1'')] \<and>
             lit ''draft-0-0-1'' \<notin> v_reflectedIds v)) \<and>
   moveParagraphInFinal 5 0 [Some \<lparr>p_id = lit ''final-1'', p_text = lit ''a'', sourceDraftIndex = Some 0,
         sourceParaIndex = Some 0, originalId = Some (lit ''draft-0-0-1'')\<rparr>] = [None, Some \<lparr>p_id = lit ''final-1'', p_text = lit ''a'', sourceDraftIndex = Some 0,
         sourceParaIndex = Some 0, originalId = Some (lit ''draft-0-0-1'')\<rparr>] \<and>
   useMemo_reflectedIds None (moveParagraphInFinal 5 0 [Some \<lparr>p_id = lit ''final-1'', p_text = lit ''a'', sourceDraftIndex = Some 0,
         sourceParaIndex = Some 0, originalId = Some (lit ''draft-0-0-1'')\<rparr>]) = Inl TypeError"
  by (simp add: useMemo_reflectedIds_def reflectedIds_of_array_def reflectedIds_def render_def
      addAllFromDraft_def js_index_def fresh_entry_def moveParagraphInFinal_def splice_start_def
      lit_def)

section \<open>Appending to the Final Manuscript\<close>

lemma splice_start_le: "splice_start i n \<le> n"
  by (auto simp: splice_start_def max_def)

lemma splice_start_valid: "0 \<le> i \<Longrightarrow> i \<le> int n \<Longrightarrow> splice_start i n = nat i"
  by (simp add: splice_start_def)

text \<open>
  Claim C5, amended. \<open>addParagraphToFinal\<close> inserts exactly one copy of the paragraph: with
  no \<open>atIndex\<close> at the end, with a position \<open>0..length\<close> at that position, and for every
  \<open>atIndex\<close> at some position, the entries before and after it being the previous ones
  unchanged and in order. The copy has the minted final id, the fields of the paragraph
  otherwise, and as \<open>originalId\<close> the paragraph's \<open>originalId\<close> when that is defined and
  not the empty string, and the paragraph's own id otherwise. Drafts are not touched.
\<close>

theorem addParagraphToFinal_inserts_copy:
  "finalParagraphs (addParagraphToFinal tok p None s) = finalParagraphs s @ [final_copy tok p] \<and>
   (0 \<le> i \<and> i \<le> int (length (finalParagraphs s)) \<longrightarrow>
      finalParagraphs (addParagraphToFinal tok p (Some i) s) =
        take (nat i) (finalParagraphs s) @ [final_copy tok p] @ drop (nat i) (finalParagraphs s)) \<and>
   (\<exists>n. n \<le> length (finalParagraphs s) \<and>
      finalParagraphs (addParagraphToFinal tok p atIndex s) =
        take n (finalParagraphs s) @ [final_copy tok p] @ drop n (finalParagraphs s)) \<and>
   drafts (addParagraphToFinal tok p atIndex s) = drafts s \<and>
   p_id (final_copy tok p) = final_id tok \<and>
   p_text (final_copy tok p) = p_text p \<and>
   sourceDraftIndex (final_copy tok p) = sourceDraftIndex p \<and>
   sourceParaIndex (final_copy tok p) = sourceParaIndex p \<and>
   originalId (final_copy tok p) =
     Some (case originalId p of
             Some oid \<Rightarrow> if oid \<noteq> [] then oid else p_id p
           | None \<Rightarrow> p_id p)"
proof -
  let ?prev = "finalParagraphs s"
  have 1: "finalParagraphs (addParagraphToFinal tok p None s) = ?prev @ [final_copy tok p]"
    by (simp add: addParagraphToFinal_def Let_def)
  have 2: "0 \<le> i \<and> i \<le> int (length ?prev) \<longrightarrow>
      finalParagraphs (addParagraphToFinal tok p (Some i) s) =
        take (nat i) ?prev @ [final_copy tok p] @ drop (nat i) ?prev"
    by (simp add: addParagraphToFinal_def Let_def splice_start_valid)
  have 3: "\<exists>n. n \<le> length ?prev \<and>
      finalParagraphs (addParagraphToFinal tok p atIndex s) =
        take n ?prev @ [final_copy tok p] @ drop n ?prev"
  proof (cases atIndex)
    case None
    then have "length ?prev \<le> length ?prev \<and>
      finalParagraphs (addParagraphToFinal tok p atIndex s) =
        take (length ?prev) ?prev @ [final_copy tok p] @ drop (length ?prev) ?prev"
      using 1 by simp
    then show ?thesis by blast
  next
    case (Some j)
    then have "splice_start j (length ?prev) \<le> length ?prev \<and>
      finalParagraphs (addParagraphToFinal tok p atIndex s) =
        take (splice_start j (length ?prev)) ?prev @ [final_copy tok p]
          @ drop (splice_start j (length ?prev)) ?prev"
      by (simp add: addParagraphToFinal_def Let_def splice_start_le)
    then show ?thesis by blast
  qed
  have 4: "drafts (addParagraphToFinal tok p atIndex s) = drafts s"
    by (simp add: addParagraphToFinal_def Let_def)
  have 5: "originalId (final_copy tok p) =
     Some (case originalId p of Some oid \<Rightarrow> if oid \<noteq> [] then oid else p_id p | None \<Rightarrow> p_id p)"
    by (cases "originalId p") (simp_all add: final_copy_def)
  show ?thesis using 1 2 3 4 5 by (simp add: final_copy_def)
qed

theorem addParagraphToFinal_inserts_copy_witness:
  "finalParagraphs (addParagraphToFinal (lit ''7'')
      \<lparr>p_id = lit ''draft-0-0-1'', p_text = lit ''a'', sourceDraftIndex = Some 0,
        sourceParaIndex = Some 0, originalId = Some (lit ''draft-0-0-1'')\<rparr> (Some 1)
      \<lparr>drafts = [],
        finalParagraphs = [polished_paragraph (lit ''5'') 0 (lit ''b''),
                           polished_paragraph (lit ''5'') 1 (lit ''c'')],
        dismissedParagraphIds = {}\<rparr>) =
     [polished_paragraph (lit ''5'') 0 (lit ''b''),
      \<lparr>p_id = lit ''final-7'', p_text = lit ''a'', sourceDraftIndex = Some 0,
        sourceParaIndex = Some 0, originalId = Some (lit ''draft-0-0-1'')\<rparr>,
      polished_paragraph (lit ''5'') 1 (lit ''c'')]"
  using addParagraphToFinal_inserts_copy [of "lit ''7''"
      "\<lparr>p_id = lit ''draft-0-0-1'', p_text = lit ''a'', sourceDraftIndex = Some 0,
        sourceParaIndex = Some 0, originalId = Some (lit ''draft-0-0-1'')\<rparr>"
      "\<lparr>drafts = [],
        finalParagraphs = [polished_paragraph (lit ''5'') 0 (lit ''b''),
                           polished_paragraph (lit ''5'') 1 (lit ''c'')],
        dismissedParagraphIds = {}\<rparr>" 1 "Some 1"]
  by (simp add: final_copy_def final_id_def lit_def)

text \<open>
  The claim as stated fails for a paragraph whose \<open>originalId\<close> is present and empty: the
  copy gets the paragraph's id, not its \<open>originalId\<close>.
\<close>

theorem addParagraphToFinal_empty_originalId_counterexample:
  "originalId \<lparr>p_id = lit ''x'', p_text = lit ''a'', sourceDraftIndex = None,
                sourceParaIndex = None, originalId = Some []\<rparr> = Some [] \<and>
   finalParagraphs (addParagraphToFinal (lit ''7'')
      \<lparr>p_id = lit ''x'', p_text = lit ''a'', sourceDraftIndex = None,
        sourceParaIndex = None, originalId = Some []\<rparr> None
      \<lparr>drafts = [], finalParagraphs = [], dismissedParagraphIds = {}\<rparr>) =
     [\<lparr>p_id = lit ''final-7'', p_text = lit ''a'', sourceDraftIndex = None,
        sourceParaIndex = None, originalId = Some (lit ''x'')\<rparr>]"
  by (simp add: addParagraphToFinal_def final_copy_def final_id_def lit_def)

section \<open>Adding a whole draft\<close>

lemma fresh_entry_fields:
  "p_text \<circ> fresh_entry mint = p_text \<circ> snd"
  "originalId \<circ> fresh_entry mint = Some \<circ> p_id \<circ> snd"
  "p_id \<circ> fresh_entry mint = final_id \<circ> mint \<circ> fst"
  "sourceDraftIndex \<circ> fresh_entry mint = sourceDraftIndex \<circ> snd"
  by (auto simp: fresh_entry_def fun_eq_iff)

lemma map_snd_enumerate_comp: "map (f \<circ> snd) (enumerate n xs) = map f xs"
proof -
  have "map (f \<circ> snd) (enumerate n xs) = map f (map snd (enumerate n xs))"
    by (simp only: map_map)
  then show ?thesis by simp
qed

lemma reflectedIds_append:
  "reflectedIds (xs @ ys) = reflectedIds xs \<union> reflectedIds ys"
  by (auto simp: reflectedIds_iff)

lemma reflectedIds_fresh:
  assumes "p \<in> set qs" "p_id p \<noteq> []"
  shows "p_id p \<in> reflectedIds (map (fresh_entry mint) (enumerate 0 qs))"
proof -
  have "snd ` set (enumerate 0 qs) = set qs"
    by (simp only: set_map [symmetric] map_snd_enumerate)
  with assms(1) have "p \<in> snd ` set (enumerate 0 qs)" by (simp only:)
  then obtain jp where jp: "jp \<in> set (enumerate 0 qs)" "p = snd jp" by (rule imageE)
  obtain j where "jp = (j, p)" using jp(2) by (cases jp) simp
  with jp(1) have "(j, p) \<in> set (enumerate 0 qs)" by (simp only:)
  then have "fresh_entry mint (j, p) \<in> set (map (fresh_entry mint) (enumerate 0 qs))"
    unfolding set_map by (rule imageI)
  moreover have "originalId (fresh_entry mint (j, p)) = Some (p_id p)"
    by (simp add: fresh_entry_def)
  ultimately show ?thesis using assms(2) unfolding reflectedIds_iff by blast
qed

lemma render_Inr:
  assumes "memo_ok cell" "render cell s = Inr (m, v)"
  shows "memo_ok (Some m)" and "v_drafts v = drafts s"
    and "v_reflectedIds v = reflectedIds (finalParagraphs s)"
  using assms(2) unfolding render_ok [OF assms(1)]
  by (auto simp: memo_ok_def reflectedIds_of_array_defined)

text \<open>
  Claim C2, amended. Called from a render whose view \<open>v\<close> has the draft \<open>k\<close>,
  \<open>addAllFromDraft(k)\<close> appends to the end of the Final Manuscript of the state, in draft
  order, one entry for each paragraph of that draft whose id is not in the reflected set of
  \<open>v\<close>: the entry has the paragraph's text, the final id minted for it and the paragraph's
  id as \<open>originalId\<close>; nothing else changes. When \<open>v\<close> is the view of a render of the state
  itself, every paragraph of the draft has a non-empty id and the component renders again
  before the second call (as it does between two clicks), the second call appends nothing,
  so the Final Manuscript, its texts and \<open>originalId\<close>s in particular, is the same as after
  one call.
\<close>

theorem addAllFromDraft_appends_unreflected:
  assumes "js_index (v_drafts v) k = Some d"
  shows "\<exists>s1 new.
           addAllFromDraft mint k v s = Inr s1 \<and>
           finalParagraphs s1 = finalParagraphs s @ new \<and>
           drafts s1 = drafts s \<and>
           dismissedParagraphIds s1 = dismissedParagraphIds s \<and>
           map p_text new =
             map p_text (filter (\<lambda>p. p_id p \<notin> v_reflectedIds v) (paragraphs d)) \<and>
           map originalId new =
             map (Some \<circ> p_id) (filter (\<lambda>p. p_id p \<notin> v_reflectedIds v) (paragraphs d)) \<and>
           map p_id new = map (\<lambda>j. lit ''final-'' @ mint j) [0..<length new] \<and>
           (renders None arrs = Inr cell \<and> render cell s = Inr (m, v) \<and>
            (\<forall>p \<in> set (paragraphs d). p_id p \<noteq> []) \<longrightarrow>
              v_reflectedIds v =
                {oid. oid \<noteq> [] \<and> (\<exists>p \<in> set (finalParagraphs s). originalId p = Some oid)} \<and>
              (\<exists>m1 v1. render (Some m) s1 = Inr (m1, v1) \<and>
                 addAllFromDraft mint' k v1 s1 = Inr s1))"
proof -
  define toAdd where "toAdd = filter (\<lambda>p. p_id p \<notin> v_reflectedIds v) (paragraphs d)"
  define new where "new = map (fresh_entry mint) (enumerate 0 toAdd)"
  define s1 where "s1 = s\<lparr>finalParagraphs := finalParagraphs s @ new\<rparr>"
  have 1: "addAllFromDraft mint k v s = Inr s1"
    using addAllFromDraft_Some [OF assms(1), of mint s] by (simp add: s1_def new_def toAdd_def)
  have 2: "finalParagraphs s1 = finalParagraphs s @ new" and 3: "drafts s1 = drafts s"
    and dis: "dismissedParagraphIds s1 = dismissedParagraphIds s"
    by (simp_all add: s1_def)
  have 4: "map p_text new = map p_text toAdd"
    by (simp add: new_def fresh_entry_fields map_snd_enumerate_comp)
  have 5: "map originalId new = map (Some \<circ> p_id) toAdd"
    using map_snd_enumerate_comp [of "Some \<circ> p_id" 0 toAdd]
    by (simp add: new_def fresh_entry_fields comp_assoc)
  have "length new = length toAdd" by (simp add: new_def)
  moreover have "p_id \<circ> fresh_entry mint = (\<lambda>j. lit ''final-'' @ mint j) \<circ> fst"
    by (auto simp: fresh_entry_def final_id_def fun_eq_iff)
  then have "map p_id new = map ((\<lambda>j. lit ''final-'' @ mint j) \<circ> fst) (enumerate 0 toAdd)"
    by (simp add: new_def)
  ultimately have 6: "map p_id new = map (\<lambda>j. lit ''final-'' @ mint j) [0..<length new]"
    by (simp only: map_fst_enumerate_comp)
  have 7: "v_reflectedIds v =
        {oid. oid \<noteq> [] \<and> (\<exists>p \<in> set (finalParagraphs s). originalId p = Some oid)} \<and>
      (\<exists>m1 v1. render (Some m) s1 = Inr (m1, v1) \<and> addAllFromDraft mint' k v1 s1 = Inr s1)"
    if rs: "renders None arrs = Inr cell" and r: "render cell s = Inr (m, v)"
      and ids: "\<forall>p \<in> set (paragraphs d). p_id p \<noteq> []"
  proof -
    have ok: "memo_ok cell" using renders_ok [OF _ rs] by (simp add: memo_ok_def)
    note v = render_Inr [OF ok r]
    define m1 where "m1 = \<lparr>memo_deps = map Some (finalParagraphs s1),
                           memo_value = reflectedIds (finalParagraphs s1)\<rparr>"
    define v1 where "v1 = \<lparr>v_drafts = drafts s1, v_reflectedIds = reflectedIds (finalParagraphs s1)\<rparr>"
    have r1: "render (Some m) s1 = Inr (m1, v1)"
      using render_ok [OF v(1), of s1] by (simp add: m1_def v1_def)
    have "p_id p \<in> v_reflectedIds v1" if p: "p \<in> set (paragraphs d)" for p
    proof (cases "p_id p \<in> v_reflectedIds v")
      case True
      then show ?thesis by (simp add: v1_def 2 reflectedIds_append v(3))
    next
      case False
      with p have "p \<in> set toAdd" by (simp add: toAdd_def)
      from reflectedIds_fresh [OF this, of mint] ids p
      have "p_id p \<in> reflectedIds new" by (simp add: new_def)
      then show ?thesis by (simp add: v1_def 2 reflectedIds_append)
    qed
    then have "filter (\<lambda>p. p_id p \<notin> v_reflectedIds v1) (paragraphs d) = []"
      by (simp add: filter_empty_conv)
    moreover have "js_index (v_drafts v1) k = Some d" using assms v(2) 3 by (simp add: v1_def)
    ultimately have "addAllFromDraft mint' k v1 s1 = Inr s1"
      using addAllFromDraft_Some [of v1 k d mint' s1] by simp
    then have "\<exists>m1 v1. render (Some m) s1 = Inr (m1, v1) \<and>
        addAllFromDraft mint' k v1 s1 = Inr s1"
      using r1 by (intro exI [of _ m1] exI [of _ v1] conjI)
    moreover have "v_reflectedIds v =
        {oid. oid \<noteq> [] \<and> (\<exists>p \<in> set (finalParagraphs s). originalId p = Some oid)}"
      by (simp only: v(3) reflectedIds_set)
    ultimately show ?thesis by (intro conjI)
  qed
  have 8: "renders None arrs = Inr cell \<and> render cell s = Inr (m, v) \<and>
      (\<forall>p \<in> set (paragraphs d). p_id p \<noteq> []) \<longrightarrow>
        v_reflectedIds v =
          {oid. oid \<noteq> [] \<and> (\<exists>p \<in> set (finalParagraphs s). originalId p = Some oid)} \<and>
        (\<exists>m1 v1. render (Some m) s1 = Inr (m1, v1) \<and>
           addAllFromDraft mint' k v1 s1 = Inr s1)"
  proof
    assume h: "renders None arrs = Inr cell \<and> render cell s = Inr (m, v) \<and>
      (\<forall>p \<in> set (paragraphs d). p_id p \<noteq> [])"
    show "v_reflectedIds v =
          {oid. oid \<noteq> [] \<and> (\<exists>p \<in> set (finalParagraphs s). originalId p = Some oid)} \<and>
        (\<exists>m1 v1. render (Some m) s1 = Inr (m1, v1) \<and>
           addAllFromDraft mint' k v1 s1 = Inr s1)"
      using h by (intro 7) blast+
  qed
  show ?thesis
    by (rule exI [of _ s1], rule exI [of _ new])
      (intro conjI 1 2 3 dis 4 [unfolded toAdd_def] 5 [unfolded toAdd_def] 6 8)
qed

theorem addAllFromDraft_appends_unreflected_witness:
  "render None
     \<lparr>drafts = [Some \<lparr>d_id = Some 1, title = None, customTitle = None, paragraphs =
            [\<lparr>p_id = lit ''draft-0-0-1'', p_text = lit ''a'', sourceDraftIndex = Some 0,
               sourceParaIndex = Some 0, originalId = Some (lit ''draft-0-0-1'')\<rparr>,
             \<lparr>p_id = lit ''draft-0-1-1'', p_text = lit ''b'', sourceDraftIndex = Some 0,
               sourceParaIndex = Some 1, originalId = Some (lit ''draft-0-1-1'')\<rparr>]\<rparr>],
      finalParagraphs =
        [\<lparr>p_id = lit ''final-7'', p_text = lit ''a'', sourceDraftIndex = Some 0,
               sourceParaIndex = Some 0, originalId = Some (lit ''draft-0-0-1'')\<rparr>],
      dismissedParagraphIds = {}\<rparr>
   = Inr (\<lparr>memo_deps = map Some (finalParagraphs
     \<lparr>drafts = [Some \<lparr>d_id = Some 1, title = None, customTitle = None, paragraphs =
            [\<lparr>p_id = lit ''draft-0-0-1'', p_text = lit ''a'', sourceDraftIndex = Some 0,
               sourceParaIndex = Some 0, originalId = Some (lit ''draft-0-0-1'')\<rparr>,
             \<lparr>p_id = lit ''draft-0-1-1'', p_text = lit ''b'', sourceDraftIndex = Some 0,
               sourceParaIndex = Some 1, originalId = Some (lit ''draft-0-1-1'')\<rparr>]\<rparr>],
      finalParagraphs =
        [\<lparr>p_id = lit ''final-7'', p_text = lit ''a'', sourceDraftIndex = Some 0,
               sourceParaIndex = Some 0, originalId = Some (lit ''draft-0-0-1'')\<rparr>],
      dismissedParagraphIds = {}\<rparr>), memo_value = {lit ''draft-0-0-1''}\<rparr>,
          \<lparr>v_drafts = [Some \<lparr>d_id = Some 1, title = None, customTitle = None, paragraphs =
            [\<lparr>p_id = lit ''draft-0-0-1'', p_text = lit ''a'', sourceDraftIndex = Some 0,
               sourceParaIndex = Some 0, originalId = Some (lit ''draft-0-0-1'')\<rparr>,
             \<lparr>p_id = lit ''draft-0-1-1'', p_text = lit ''b'', sourceDraftIndex = Some 0,
               sourceParaIndex = Some 1, originalId = Some (lit ''draft-0-1-1'')\<rparr>]\<rparr>],
            v_reflectedIds = {lit ''draft-0-0-1''}\<rparr>) \<and>
   addAllFromDraft (\<lambda>_. lit ''9'') 0
     \<lparr>v_drafts = [Some \<lparr>d_id = Some 1, title = None, customTitle = None, paragraphs =
            [\<lparr>p_id = lit ''draft-0-0-1'', p_text = lit ''a'', sourceDraftIndex = Some 0,
               sourceParaIndex = Some 0, originalId = Some (lit ''draft-0-0-1'')\<rparr>,
             \<lparr>p_id = lit ''draft-0-1-1'', p_text = lit ''b'', sourceDraftIndex = Some 0,
               sourceParaIndex = Some 1, originalId = Some (lit ''draft-0-1-1'')\<rparr>]\<rparr>],
       v_reflectedIds = {lit ''draft-0-0-1''}\<rparr>
     \<lparr>drafts = [Some \<lparr>d_id = Some 1, title = None, customTitle = None, paragraphs =
            [\<lparr>p_id = lit ''draft-0-0-1'', p_text = lit ''a'', sourceDraftIndex = Some 0,
               sourceParaIndex = Some 0, originalId = Some (lit ''draft-0-0-1'')\<rparr>,
             \<lparr>p_id = lit ''draft-0-1-1'', p_text = lit ''b'', sourceDraftIndex = Some 0,
               sourceParaIndex = Some 1, originalId = Some (lit ''draft-0-1-1'')\<rparr>]\<rparr>],
      finalParagraphs =
        [\<lparr>p_id = lit ''final-7'', p_text = lit ''a'', sourceDraftIndex = Some 0,
               sourceParaIndex = Some 0, originalId = Some (lit ''draft-0-0-1'')\<rparr>],
      dismissedParagraphIds = {}\<rparr>
   = Inr
     \<lparr>drafts = [Some \<lparr>d_id = Some 1, title = None, customTitle = None, paragraphs =
            [\<lparr>p_id = lit ''draft-0-0-1'', p_text = lit ''a'', sourceDraftIndex = Some 0,
               sourceParaIndex = Some 0, originalId = Some (lit ''draft-0-0-1'')\<rparr>,
             \<lparr>p_id = lit ''draft-0-1-1'', p_text = lit ''b'', sourceDraftIndex = Some 0,
               sourceParaIndex = Some 1, originalId = Some (lit ''draft-0-1-1'')\<rparr>]\<rparr>],
      finalParagraphs =
        [\<lparr>p_id = lit ''final-7'', p_text = lit ''a'', sourceDraftIndex = Some 0,
               sourceParaIndex = Some 0, originalId = Some (lit ''draft-0-0-1'')\<rparr>,
         \<lparr>p_id = [102, 105, 110, 97, 108, 45, 57], p_text = lit ''b'',
               sourceDraftIndex = Some 0, sourceParaIndex = Some 1,
               originalId = Some (lit ''draft-0-1-1'')\<rparr>],
      dismissedParagraphIds = {}\<rparr> \<and>
   addAllFromDraft (\<lambda>_. lit ''10'') 0
     \<lparr>v_drafts = [Some \<lparr>d_id = Some 1, title = None, customTitle = None, paragraphs =
            [\<lparr>p_id = lit ''draft-0-0-1'', p_text = lit ''a'', sourceDraftIndex = Some 0,
               sourceParaIndex = Some 0, originalId = Some (lit ''draft-0-0-1'')\<rparr>,
             \<lparr>p_id = lit ''draft-0-1-1'', p_text = lit ''b'', sourceDraftIndex = Some 0,
               sourceParaIndex = Some 1, originalId = Some (lit ''draft-0-1-1'')\<rparr>]\<rparr>],
       v_reflectedIds = {lit ''draft-0-0-1'', lit ''draft-0-1-1''}\<rparr>
     \<lparr>drafts = [Some \<lparr>d_id = Some 1, title = None, customTitle = None, paragraphs =
            [\<lparr>p_id = lit ''draft-0-0-1'', p_text = lit ''a'', sourceDraftIndex = Some 0,
               sourceParaIndex = Some 0, originalId = Some (lit ''draft-0-0-1'')\<rparr>,
             \<lparr>p_id = lit ''draft-0-1-1'', p_text = lit ''b'', sourceDraftIndex = Some 0,
               sourceParaIndex = Some 1, originalId = Some (lit ''draft-0-1-1'')\<rparr>]\<rparr>],
      finalParagraphs =
        [\<lparr>p_id = lit ''final-7'', p_text = lit ''a'', sourceDraftIndex = Some 0,
               sourceParaIndex = Some 0, originalId = Some (lit ''draft-0-0-1'')\<rparr>,
         \<lparr>p_id = [102, 105, 110, 97, 108, 45, 57], p_text = lit ''b'',
               sourceDraftIndex = Some 0, sourceParaIndex = Some 1,
               originalId = Some (lit ''draft-0-1-1'')\<rparr>],
      dismissedParagraphIds = {}\<rparr>
   = Inr
     \<lparr>drafts = [Some \<lparr>d_id = Some 1, title = None, customTitle = None, paragraphs =
            [\<lparr>p_id = lit ''draft-0-0-1'', p_text = lit ''a'', sourceDraftIndex = Some 0,
               sourceParaIndex = Some 0, originalId = Some (lit ''draft-0-0-1'')\<rparr>,
             \<lparr>p_id = lit ''draft-0-1-1'', p_text = lit ''b'', sourceDraftIndex = Some 0,
               sourceParaIndex = Some 1, originalId = Some (lit ''draft-0-1-1'')\<rparr>]\<rparr>],
      finalParagraphs =
        [\<lparr>p_id = lit ''final-7'', p_text = lit ''a'', sourceDraftIndex = Some 0,
               sourceParaIndex = Some 0, originalId = Some (lit ''draft-0-0-1'')\<rparr>,
         \<lparr>p_id = [102, 105, 110, 97, 108, 45, 57], p_text = lit ''b'',
               sourceDraftIndex = Some 0, sourceParaIndex = Some 1,
               originalId = Some (lit ''draft-0-1-1'')\<rparr>],
      dismissedParagraphIds = {}\<rparr>"
proof -
  have "js_index (v_drafts \<lparr>v_drafts = [Some \<lparr>d_id = Some 1, title = None, customTitle = None, paragraphs =
            [\<lparr>p_id = lit ''draft-0-0-1'', p_text = lit ''a'', sourceDraftIndex = Some 0,
               sourceParaIndex = Some 0, originalId = Some (lit ''draft-0-0-1'')\<rparr>,
             \<lparr>p_id = lit ''draft-0-1-1'', p_text = lit ''b'', sourceDraftIndex = Some 0,
               sourceParaIndex = Some 1, originalId = Some (lit ''draft-0-1-1'')\<rparr>]\<rparr>],
       v_reflectedIds = {lit ''draft-0-0-1''}\<rparr>) 0 = Some \<lparr>d_id = Some 1, title = None, customTitle = None, paragraphs =
            [\<lparr>p_id = lit ''draft-0-0-1'', p_text = lit ''a'', sourceDraftIndex = Some 0,
               sourceParaIndex = Some 0, originalId = Some (lit ''draft-0-0-1'')\<rparr>,
             \<lparr>p_id = lit ''draft-0-1-1'', p_text = lit ''b'', sourceDraftIndex = Some 0,
               sourceParaIndex = Some 1, originalId = Some (lit ''draft-0-1-1'')\<rparr>]\<rparr>"
    by (simp add: js_index_def)
  from addAllFromDraft_appends_unreflected [OF this, of "\<lambda>_. lit ''9''"
    "\<lparr>drafts = [Some \<lparr>d_id = Some 1, title = None, customTitle = None, paragraphs =
            [\<lparr>p_id = lit ''draft-0-0-1'', p_text = lit ''a'', sourceDraftIndex = Some 0,
               sourceParaIndex = Some 0, originalId = Some (lit ''draft-0-0-1'')\<rparr>,
             \<lparr>p_id = lit ''draft-0-1-1'', p_text = lit ''b'', sourceDraftIndex = Some 0,
               sourceParaIndex = Some 1, originalId = Some (lit ''draft-0-1-1'')\<rparr>]\<rparr>],
      finalParagraphs =
        [\<lparr>p_id = lit ''final-7'', p_text = lit ''a'', sourceDraftIndex = Some 0,
               sourceParaIndex = Some 0, originalId = Some (lit ''draft-0-0-1'')\<rparr>],
      dismissedParagraphIds = {}\<rparr>"]
  have "\<exists>s1. addAllFromDraft (\<lambda>_. lit ''9'') 0
     \<lparr>v_drafts = [Some \<lparr>d_id = Some 1, title = None, customTitle = None, paragraphs =
            [\<lparr>p_id = lit ''draft-0-0-1'', p_text = lit ''a'', sourceDraftIndex = Some 0,
               sourceParaIndex = Some 0, originalId = Some (lit ''draft-0-0-1'')\<rparr>,
             \<lparr>p_id = lit ''draft-0-1-1'', p_text = lit ''b'', sourceDraftIndex = Some 0,
               sourceParaIndex = Some 1, originalId = Some (lit ''draft-0-1-1'')\<rparr>]\<rparr>],
       v_reflectedIds = {lit ''draft-0-0-1''}\<rparr>
     \<lparr>drafts = [Some \<lparr>d_id = Some 1, title = None, customTitle = None, paragraphs =
            [\<lparr>p_id = lit ''draft-0-0-1'', p_text = lit ''a'', sourceDraftIndex = Some 0,
               sourceParaIndex = Some 0, originalId = Some (lit ''draft-0-0-1'')\<rparr>,
             \<lparr>p_id = lit ''draft-0-1-1'', p_text = lit ''b'', sourceDraftIndex = Some 0,
               sourceParaIndex = Some 1, originalId = Some (lit ''draft-0-1-1'')\<rparr>]\<rparr>],
      finalParagraphs =
        [\<lparr>p_id = lit ''final-7'', p_text = lit ''a'', sourceDraftIndex = Some 0,
               sourceParaIndex = Some 0, originalId = Some (lit ''draft-0-0-1'')\<rparr>],
      dismissedParagraphIds = {}\<rparr> = Inr s1"
    by blast
  then show ?thesis
    by (simp add: render_def useMemo_reflectedIds_def reflectedIds_of_array_def those_map_Some
      addAllFromDraft_def js_index_def reflectedIds_def fresh_entry_def final_id_def lit_def)
qed

text \<open>
  The claim as stated fails in two ways. Two calls from the same render (no render
  between them) filter with the same reflected set, and the paragraphs are appended
  twice. And with a render between the calls, a draft paragraph whose id is the empty
  string is appended again, because the empty \<open>originalId\<close> of its entry is not in the
  reflected set.
\<close>

theorem addAllFromDraft_twice_counterexample:
  "(case render None
      \<lparr>drafts = [Some \<lparr>d_id = Some 1, title = None, customTitle = None, paragraphs =
            [\<lparr>p_id = lit ''draft-0-0-1'', p_text = lit ''a'', sourceDraftIndex = Some 0,
               sourceParaIndex = Some 0, originalId = Some (lit ''draft-0-0-1'')\<rparr>,
             \<lparr>p_id = lit ''draft-0-1-1'', p_text = lit ''b'', sourceDraftIndex = Some 0,
               sourceParaIndex = Some 1, originalId = Some (lit ''draft-0-1-1'')\<rparr>]\<rparr>],
      finalParagraphs = [], dismissedParagraphIds = {}\<rparr> of
      Inl e \<Rightarrow> []
    | Inr (m, v) \<Rightarrow>
        (case addAllFromDraft (\<lambda>j. string_of_nat j) 0 v
           \<lparr>drafts = [Some \<lparr>d_id = Some 1, title = None, customTitle = None, paragraphs =
            [\<lparr>p_id = lit ''draft-0-0-1'', p_text = lit ''a'', sourceDraftIndex = Some 0,
               sourceParaIndex = Some 0, originalId = Some (lit ''draft-0-0-1'')\<rparr>,
             \<lparr>p_id = lit ''draft-0-1-1'', p_text = lit ''b'', sourceDraftIndex = Some 0,
               sourceParaIndex = Some 1, originalId = Some (lit ''draft-0-1-1'')\<rparr>]\<rparr>],
      finalParagraphs = [], dismissedParagraphIds = {}\<rparr> of
           Inl e \<Rightarrow> []
         | Inr s1 \<Rightarrow>
             (case addAllFromDraft (\<lambda>j. string_of_nat (2 + j)) 0 v s1 of
                Inl e \<Rightarrow> []
              | Inr s2 \<Rightarrow>
                  [map p_text (finalParagraphs s1), map p_text (finalParagraphs s2)])))
     = [[lit ''a'', lit ''b''], [lit ''a'', lit ''b'', lit ''a'', lit ''b'']] \<and>
   (case render None
      \<lparr>drafts = [Some \<lparr>d_id = Some 1, title = None, customTitle = None, paragraphs =
            [\<lparr>p_id = [], p_text = lit ''x'', sourceDraftIndex = Some 0,
               sourceParaIndex = Some 0, originalId = Some []\<rparr>]\<rparr>],
      finalParagraphs = [], dismissedParagraphIds = {}\<rparr> of
      Inl e \<Rightarrow> []
    | Inr (m, v) \<Rightarrow>
        (case addAllFromDraft (\<lambda>j. string_of_nat j) 0 v
           \<lparr>drafts = [Some \<lparr>d_id = Some 1, title = None, customTitle = None, paragraphs =
            [\<lparr>p_id = [], p_text = lit ''x'', sourceDraftIndex = Some 0,
               sourceParaIndex = Some 0, originalId = Some []\<rparr>]\<rparr>],
      finalParagraphs = [], dismissedParagraphIds = {}\<rparr> of
           Inl e \<Rightarrow> []
         | Inr s1 \<Rightarrow>
             (case render (Some m) s1 of
                Inl e \<Rightarrow> []
              | Inr (m1, v1) \<Rightarrow>
                  (case addAllFromDraft (\<lambda>j. string_of_nat (1 + j)) 0 v1 s1 of
                     Inl e \<Rightarrow> []
                   | Inr s2 \<Rightarrow>
                       [map p_text (finalParagraphs s1), map p_text (finalParagraphs s2)]))))
     = [[lit ''x''], [lit ''x'', lit ''x'']]"
  by (simp add: render_def useMemo_reflectedIds_def reflectedIds_of_array_def those_map_Some
      addAllFromDraft_def js_index_def reflectedIds_def fresh_entry_def final_id_def lit_def)

section \<open>File import\<close>







end
